theory Spec2Isabelle
  imports Main "HOL-Library.AList"
begin

section \<open>The Upbit streaming client (api/upbit\_websocket.py, database/db\_manager.py)\<close>

text \<open>
  The class \<^verbatim>\<open>UpbitWebSocket\<close> is embedded as a record of its attributes together with
  an explicit world: a step counter, the frames handed to the socket, the rows committed to
  the token table, the frames read from the socket, the messages given to the callback and
  the calls of \<^verbatim>\<open>logging.error\<close>.  Everything the program cannot decide by
  itself (the network, the database server, the clock, the random identifiers, the signing
  library, the decoder and the consumer callback) is an oracle: a function of the step
  counter at which the program asks.  Since the program is deterministic, every run of the
  real program is the run of the model under one such oracle.

  A Python name with a leading underscore is written with the prefix \<open>u_\<close>
  (\<^verbatim>\<open>_subscribe\<close> is \<open>u_subscribe\<close>).  Every coroutine is modelled as running
  without interference from the other tasks between its entry and its return.
\<close>

subsection \<open>Data\<close>

datatype exn = AttributeError | ConnectionClosed | TypeError | OtherException

text \<open>
  What \<^verbatim>\<open>recv()\<close> returns: a \<^verbatim>\<open>str\<close> for a text frame, \<^verbatim>\<open>bytes\<close> for a
  binary frame.
\<close>

datatype frame = Text string | Binary string

text \<open>
  What \<^verbatim>\<open>json.loads\<close> does with a frame: it returns the value, raises
  \<^verbatim>\<open>json.JSONDecodeError\<close>, or raises an exception of another class
  (\<^verbatim>\<open>RecursionError\<close> on deep nesting, \<^verbatim>\<open>UnicodeDecodeError\<close> on bytes).
\<close>

datatype 'm loaded = Decoded 'm | JSONDecodeError | OtherDecodeError

text \<open>The subscription request: a JSON array of one-key or three-key objects.\<close>

datatype element =
    Ticket string
  | Request string "string list" bool
  | Format string

datatype ws_out = SubscriptionFrame "element list" | Pong

datatype log_entry =
    LogDbError
  | LogCloseError
  | LogConnectError
  | LogSubscribeError string
  | LogUnsubscribeError
  | LogReconnectError
  | LogJsonError string
  | LogReceiveError
  | LogCallbackError

record 'm env =
  uuid4 :: "nat \<Rightarrow> string"
  now :: "nat \<Rightarrow> int"
  jwt_encode :: "string \<Rightarrow> string \<Rightarrow> string \<Rightarrow> string"
  json_loads :: "frame \<Rightarrow> 'm loaded"
  ws_connect :: "nat \<Rightarrow> exn option"
  ws_closed :: "nat \<Rightarrow> bool"
  ws_close :: "nat \<Rightarrow> exn option"
  ws_send :: "nat \<Rightarrow> exn option"
  ws_recv :: "nat \<Rightarrow> exn + frame"
  callback :: "'m \<Rightarrow> nat \<Rightarrow> exn option"
  mysql_connect :: "nat \<Rightarrow> bool"
  mysql_is_connected :: "nat \<Rightarrow> bool"
  mysql_execute :: "nat \<Rightarrow> bool"
  mysql_commit :: "nat \<Rightarrow> bool"
  mysql_fetchone :: "nat \<Rightarrow> (string \<times> int) option"

text \<open>
  The attributes of the client.  \<open>secret_key\<close> is read by \<^verbatim>\<open>_create_jwt_token\<close>
  and assigned nowhere in the class: \<open>None\<close> is the missing attribute.  \<open>db_connection\<close>
  and \<open>db_cursor\<close> say whether the attributes of the \<^verbatim>\<open>DatabaseManager\<close> hold an
  object.  \<open>websocket\<close> holds the step at which the connection was opened.
  \<open>subscribed_types\<close> is a dictionary in insertion order.  Times are seconds.
\<close>

record 'm client =
  access_key :: string
  secret_key :: "string option"
  db_connection :: bool
  db_cursor :: bool
  websocket :: "nat option"
  is_connected :: bool
  has_callback :: bool
  subscribed_markets :: "string set"
  subscribed_types :: "(string \<times> string list) list"
  auth_token :: "string option"
  auth_expires_at :: "int option"
  message_queue :: "'m list"
  tick :: nat
  send_log :: "(ws_out \<times> bool) list"
  db_writes :: "(string \<times> string \<times> int) list"
  received :: "frame list"
  callback_calls :: "'m list"
  error_log :: "log_entry list"

definition TOKEN_REFRESH_INTERVAL :: int where
  "TOKEN_REFRESH_INTERVAL = 86400"

definition tock :: "'m client \<Rightarrow> 'm client" where
  "tock s = s\<lparr>tick := Suc (tick s)\<rparr>"

subsection \<open>DatabaseManager\<close>

text \<open>
  \<^verbatim>\<open>__init__\<close> (db\_manager.py 15-33): a failed connect is caught, logged, and leaves
  both attributes \<open>None\<close>; a cursor is made only when the new connection reports
  connected.  \<^verbatim>\<open>_create_tables\<close> catches its own errors and changes no attribute.
\<close>

definition db_init :: "'m env \<Rightarrow> 'm client \<Rightarrow> 'm client" where
  "db_init e s =
    (if mysql_connect e (tick s) then
       (if mysql_is_connected e (tick s + 1)
        then s\<lparr>db_connection := True, db_cursor := True, tick := tick s + 3\<rparr>
        else s\<lparr>db_connection := True, tick := tick s + 2\<rparr>)
     else s\<lparr>db_connection := False, db_cursor := False, tick := tick s + 1,
            error_log := error_log s @ [LogDbError]\<rparr>)"

text \<open>
  \<^verbatim>\<open>if self.connection is None or not self.connection.is_connected(): self.__init__()\<close>
\<close>

definition db_ensure_connection :: "'m env \<Rightarrow> 'm client \<Rightarrow> 'm client" where
  "db_ensure_connection e s =
    (if \<not> db_connection s then db_init e s
     else if \<not> mysql_is_connected e (tick s) then db_init e (tock s)
     else tock s)"

text \<open>
  \<^verbatim>\<open>save_auth\<close> (db\_manager.py 158-193).  Only \<^verbatim>\<open>mysql.connector.Error\<close> is
  caught; calling a method of \<open>None\<close> raises \<^verbatim>\<open>AttributeError\<close>, which leaves the
  function.  A row counts as written when the commit succeeds.
\<close>

definition save_auth ::
  "'m env \<Rightarrow> string \<Rightarrow> string \<Rightarrow> int \<Rightarrow> 'm client \<Rightarrow> (exn + bool) \<times> 'm client" where
  "save_auth e auth_type token expires_at s =
    (let s1 = db_ensure_connection e s in
     if \<not> db_cursor s1 then (Inl AttributeError, s1)
     else if \<not> mysql_execute e (tick s1) then
       (Inr False, s1\<lparr>tick := tick s1 + 1, error_log := error_log s1 @ [LogDbError]\<rparr>)
     else if \<not> mysql_execute e (tick s1 + 1) then
       (Inr False, s1\<lparr>tick := tick s1 + 2, error_log := error_log s1 @ [LogDbError]\<rparr>)
     else if \<not> db_connection s1 then (Inl AttributeError, s1\<lparr>tick := tick s1 + 2\<rparr>)
     else if \<not> mysql_commit e (tick s1 + 2) then
       (Inr False, s1\<lparr>tick := tick s1 + 3, error_log := error_log s1 @ [LogDbError]\<rparr>)
     else
       (Inr True, s1\<lparr>tick := tick s1 + 3,
                      db_writes := db_writes s1 @ [(auth_type, token, expires_at)]\<rparr>))"

text \<open>\<^verbatim>\<open>get_auth\<close> (db\_manager.py 195-220): the row, or \<open>None\<close> for \<^verbatim>\<open>(None, None)\<close>.\<close>

definition get_auth ::
  "'m env \<Rightarrow> string \<Rightarrow> 'm client \<Rightarrow> (exn + (string \<times> int) option) \<times> 'm client" where
  "get_auth e auth_type s =
    (let s1 = db_ensure_connection e s in
     if \<not> db_cursor s1 then (Inl AttributeError, s1)
     else if \<not> mysql_execute e (tick s1) then
       (Inr None, s1\<lparr>tick := tick s1 + 1, error_log := error_log s1 @ [LogDbError]\<rparr>)
     else (Inr (mysql_fetchone e (tick s1 + 1)), s1\<lparr>tick := tick s1 + 2\<rparr>))"

subsection \<open>The authentication token\<close>

text \<open>\<^verbatim>\<open>_create_jwt_token\<close> (51-63): the nonce is drawn, then \<^verbatim>\<open>self.secret_key\<close> is read.\<close>

definition u_create_jwt_token :: "'m env \<Rightarrow> 'm client \<Rightarrow> (exn + string) \<times> 'm client" where
  "u_create_jwt_token e s =
    (let nonce = uuid4 e (tick s); s1 = tock s in
     case secret_key s of
       None \<Rightarrow> (Inl AttributeError, s1)
     | Some key \<Rightarrow> (Inr (jwt_encode e (access_key s) nonce key), s1))"

text \<open>
  The test of line 75,
  \<^verbatim>\<open>self.auth_token and self.auth_expires_at and now < self.auth_expires_at\<close>:
  the cached token when it holds, \<open>None\<close> otherwise (an empty string is false in Python).
\<close>

definition cached_token :: "int \<Rightarrow> 'm client \<Rightarrow> string option" where
  "cached_token t s =
    (case auth_token s of
       None \<Rightarrow> None
     | Some token \<Rightarrow>
         if token = [] then None
         else (case auth_expires_at s of
                 None \<Rightarrow> None
               | Some expires_at \<Rightarrow> if t < expires_at then Some token else None))"

text \<open>Lines 85-92: mint, cache, save; the value \<^verbatim>\<open>save_auth\<close> returns is not read.\<close>

definition mint_token :: "'m env \<Rightarrow> 'm client \<Rightarrow> (exn + string) \<times> 'm client" where
  "mint_token e s =
    (case u_create_jwt_token e s of
       (Inl x, s1) \<Rightarrow> (Inl x, s1)
     | (Inr token, s1) \<Rightarrow>
         (let expires_at = now e (tick s1) + TOKEN_REFRESH_INTERVAL;
              s2 = s1\<lparr>auth_token := Some token, auth_expires_at := Some expires_at,
                      tick := Suc (tick s1)\<rparr>
          in case save_auth e ''websocket'' token expires_at s2 of
               (Inl x, s3) \<Rightarrow> (Inl x, s3)
             | (Inr saved, s3) \<Rightarrow> (Inr token, s3)))"

text \<open>\<^verbatim>\<open>_ensure_auth\<close> (65-92).\<close>

definition u_ensure_auth :: "'m env \<Rightarrow> 'm client \<Rightarrow> (exn + string) \<times> 'm client" where
  "u_ensure_auth e s =
    (case cached_token (now e (tick s)) s of
       Some token \<Rightarrow> (Inr token, tock s)
     | None \<Rightarrow>
        (case get_auth e ''websocket'' (tock s) of
           (Inl x, s1) \<Rightarrow> (Inl x, s1)
         | (Inr None, s1) \<Rightarrow> mint_token e s1
         | (Inr (Some (cached, cached_expires_at)), s1) \<Rightarrow>
             if cached = [] then mint_token e s1
             else if now e (tick s1) < cached_expires_at then
               (Inr cached, s1\<lparr>auth_token := Some cached,
                               auth_expires_at := Some cached_expires_at,
                               tick := Suc (tick s1)\<rparr>)
             else mint_token e (tock s1)))"

subsection \<open>The subscription registry\<close>

text \<open>\<^verbatim>\<open>self.subscribed_types[market]\<close> where the key is known to be present.\<close>

definition types_of :: "(string \<times> string list) list \<Rightarrow> string \<Rightarrow> string list" where
  "types_of types market = (case map_of types market of None \<Rightarrow> [] | Some ts \<Rightarrow> ts)"

text \<open>The body of the loop of lines 215-220.\<close>

definition register_market :: "string \<Rightarrow> string \<Rightarrow> 'm client \<Rightarrow> 'm client" where
  "register_market type_name market s =
    (let types1 = (if map_of (subscribed_types s) market = None
                   then AList.update market [] (subscribed_types s)
                   else subscribed_types s);
         types2 = (if type_name \<notin> set (types_of types1 market)
                   then AList.update market (types_of types1 market @ [type_name]) types1
                   else types1)
     in s\<lparr>subscribed_markets := insert market (subscribed_markets s),
          subscribed_types := types2\<rparr>)"

definition register_markets :: "string \<Rightarrow> string list \<Rightarrow> 'm client \<Rightarrow> 'm client" where
  "register_markets type_name markets s = fold (register_market type_name) markets s"

text \<open>The inner loop of \<^verbatim>\<open>resubscribe_all\<close> (276-279).\<close>

definition markets_for :: "string \<Rightarrow> (string \<times> string list) list \<Rightarrow> string list" where
  "markets_for type_name types =
     map fst (filter (\<lambda>(market, ts). type_name \<in> set ts) types)"

text \<open>The registry update of \<^verbatim>\<open>unsubscribe\<close> (246-256).\<close>

definition unregister :: "string \<Rightarrow> string option \<Rightarrow> 'm client \<Rightarrow> 'm client" where
  "unregister market type_name s =
    (let drop_market = s\<lparr>subscribed_types := AList.delete market (subscribed_types s),
                         subscribed_markets := subscribed_markets s - {market}\<rparr>
     in case type_name of
          None \<Rightarrow> drop_market
        | Some t \<Rightarrow>
           if t = [] then drop_market
           else (case map_of (subscribed_types s) market of
                   None \<Rightarrow> drop_market
                 | Some ts \<Rightarrow>
                     if t \<in> set ts then
                       (if remove1 t ts = [] then drop_market
                        else s\<lparr>subscribed_types :=
                                 AList.update market (remove1 t ts) (subscribed_types s)\<rparr>)
                     else s))"

subsection \<open>Connecting and subscribing\<close>

text \<open>Lines 196-209: the message, and the token fetched for the three channel types.\<close>

definition subscribe_message ::
  "'m env \<Rightarrow> string \<Rightarrow> string list \<Rightarrow> 'm client \<Rightarrow> (exn + element list) \<times> 'm client" where
  "subscribe_message e type_name markets s =
    (let message = [Ticket (uuid4 e (tick s)), Request type_name markets True] in
     if type_name \<in> set [''ticker'', ''orderbook'', ''trade''] then
       (case u_ensure_auth e (tock s) of
          (Inl x, s1) \<Rightarrow> (Inl x, s1)
        | (Inr token, s1) \<Rightarrow> (Inr (message @ [Format ''SIMPLE'']), s1))
     else (Inr message, tock s))"

text \<open>The handler of lines 225-229.\<close>

definition subscribe_failed :: "string \<Rightarrow> 'm client \<Rightarrow> 'm client" where
  "subscribe_failed type_name s =
     s\<lparr>is_connected := False, websocket := None,
       error_log := error_log s @ [LogSubscribeError type_name]\<rparr>"

text \<open>
  The \<^verbatim>\<open>try\<close> block of \<^verbatim>\<open>_subscribe\<close> (195-229).  Every send is recorded with its
  outcome.  The registry is updated after a successful send only.
\<close>

definition subscribe_try ::
  "'m env \<Rightarrow> string \<Rightarrow> string list \<Rightarrow> 'm client \<Rightarrow> bool \<times> 'm client" where
  "subscribe_try e type_name markets s =
    (case subscribe_message e type_name markets s of
       (Inl x, s1) \<Rightarrow> (False, subscribe_failed type_name s1)
     | (Inr message, s1) \<Rightarrow>
        (case websocket s1 of
           None \<Rightarrow> (False, subscribe_failed type_name s1)
         | Some w \<Rightarrow>
            (case ws_send e (tick s1) of
               Some x \<Rightarrow>
                 (False, subscribe_failed type_name
                    (s1\<lparr>tick := Suc (tick s1),
                        send_log := send_log s1 @ [(SubscriptionFrame message, False)]\<rparr>))
             | None \<Rightarrow>
                 (True, register_markets type_name markets
                    (s1\<lparr>tick := Suc (tick s1),
                        send_log := send_log s1 @ [(SubscriptionFrame message, True)]\<rparr>)))))"

text \<open>
  \<^verbatim>\<open>_subscribe\<close>, \<^verbatim>\<open>resubscribe_all\<close> and \<^verbatim>\<open>connect\<close> call each other.  Each
  is first written with the coroutine it calls as a parameter; the recursion is closed
  below by a bound on the nesting of \<^verbatim>\<open>connect\<close>, and \<open>None\<close> is a run that exceeds it.
\<close>

definition u_subscribe_with ::
  "('m client \<Rightarrow> ((exn + unit) \<times> 'm client) option) \<Rightarrow> 'm env \<Rightarrow> string \<Rightarrow> string list
     \<Rightarrow> 'm client \<Rightarrow> ((exn + bool) \<times> 'm client) option" where
  "u_subscribe_with conn e type_name markets s =
    (if \<not> is_connected s \<or> websocket s = None then
       (case conn s of
          None \<Rightarrow> None
        | Some (Inl x, s1) \<Rightarrow> Some (Inl x, s1)
        | Some (Inr u, s1) \<Rightarrow>
            (case subscribe_try e type_name markets s1 of (b, s2) \<Rightarrow> Some (Inr b, s2)))
     else (case subscribe_try e type_name markets s of (b, s2) \<Rightarrow> Some (Inr b, s2)))"

text \<open>The loop of \<^verbatim>\<open>resubscribe_all\<close> over the channel types (275-282).\<close>

fun resubscribe_loop ::
  "(string \<Rightarrow> string list \<Rightarrow> 'm client \<Rightarrow> ((exn + bool) \<times> 'm client) option)
     \<Rightarrow> string list \<Rightarrow> 'm client \<Rightarrow> ((exn + unit) \<times> 'm client) option" where
  "resubscribe_loop sub [] s = Some (Inr (), s)"
| "resubscribe_loop sub (type_name # rest) s =
    (let markets = markets_for type_name (subscribed_types s) in
     if markets \<noteq> [] then
       (case sub type_name markets s of
          None \<Rightarrow> None
        | Some (Inl x, s1) \<Rightarrow> Some (Inl x, s1)
        | Some (Inr b, s1) \<Rightarrow> resubscribe_loop sub rest s1)
     else resubscribe_loop sub rest s)"

definition resubscribe_all_with ::
  "(string \<Rightarrow> string list \<Rightarrow> 'm client \<Rightarrow> ((exn + bool) \<times> 'm client) option)
     \<Rightarrow> 'm client \<Rightarrow> ((exn + unit) \<times> 'm client) option" where
  "resubscribe_all_with sub s =
    (if subscribed_types s = [] then Some (Inr (), s)
     else resubscribe_loop sub [''ticker'', ''orderbook'', ''trade''] s)"

text \<open>
  The \<^verbatim>\<open>try\<close> block of \<^verbatim>\<open>connect\<close> (104-127): an error of closing the old socket is
  logged; an error of opening, or one that leaves \<^verbatim>\<open>resubscribe_all\<close>, is logged and
  raised again after the state is reset.
\<close>

definition connect_try ::
  "('m client \<Rightarrow> ((exn + unit) \<times> 'm client) option) \<Rightarrow> 'm env \<Rightarrow> 'm client
     \<Rightarrow> ((exn + unit) \<times> 'm client) option" where
  "connect_try resub e s =
    (let s1 = (case websocket s of
                 None \<Rightarrow> s
               | Some w \<Rightarrow>
                   (case ws_close e (tick s) of
                      None \<Rightarrow> s\<lparr>websocket := None, tick := Suc (tick s)\<rparr>
                    | Some x \<Rightarrow> s\<lparr>websocket := None, tick := Suc (tick s),
                                  error_log := error_log s @ [LogCloseError]\<rparr>))
     in case ws_connect e (tick s1) of
          Some x \<Rightarrow>
            Some (Inl x, s1\<lparr>is_connected := False, websocket := None, tick := Suc (tick s1),
                            error_log := error_log s1 @ [LogConnectError]\<rparr>)
        | None \<Rightarrow>
           (let s2 = s1\<lparr>websocket := Some (tick s1), is_connected := True,
                        tick := Suc (tick s1)\<rparr>
            in if subscribed_markets s2 \<noteq> {} then
                 (case resub s2 of
                    None \<Rightarrow> None
                  | Some (Inl x, s3) \<Rightarrow>
                      Some (Inl x, s3\<lparr>is_connected := False, websocket := None,
                                      error_log := error_log s3 @ [LogConnectError]\<rparr>)
                  | Some (Inr u, s3) \<Rightarrow> Some (Inr (), s3))
               else Some (Inr (), s2)))"

text \<open>\<^verbatim>\<open>connect\<close> (98-127): nothing is done when the socket is there and not closed.\<close>

definition connect_with ::
  "('m client \<Rightarrow> ((exn + unit) \<times> 'm client) option) \<Rightarrow> 'm env \<Rightarrow> 'm client
     \<Rightarrow> ((exn + unit) \<times> 'm client) option" where
  "connect_with resub e s =
    (case websocket s of
       None \<Rightarrow> connect_try resub e s
     | Some w \<Rightarrow>
         if \<not> ws_closed e (tick s) then Some (Inr (), tock s)
         else connect_try resub e (tock s))"

primrec connect :: "nat \<Rightarrow> 'm env \<Rightarrow> 'm client \<Rightarrow> ((exn + unit) \<times> 'm client) option" where
  "connect 0 e s = None"
| "connect (Suc n) e s =
     connect_with (resubscribe_all_with (u_subscribe_with (connect n e) e)) e s"

definition u_subscribe ::
  "nat \<Rightarrow> 'm env \<Rightarrow> string \<Rightarrow> string list \<Rightarrow> 'm client \<Rightarrow> ((exn + bool) \<times> 'm client) option" where
  "u_subscribe n e = u_subscribe_with (connect n e) e"

definition resubscribe_all ::
  "nat \<Rightarrow> 'm env \<Rightarrow> 'm client \<Rightarrow> ((exn + unit) \<times> 'm client) option" where
  "resubscribe_all n e = resubscribe_all_with (u_subscribe n e)"

definition subscribe_ticker ::
  "nat \<Rightarrow> 'm env \<Rightarrow> string list \<Rightarrow> 'm client \<Rightarrow> ((exn + bool) \<times> 'm client) option" where
  "subscribe_ticker n e markets s = u_subscribe n e ''ticker'' markets s"

definition subscribe_orderbook ::
  "nat \<Rightarrow> 'm env \<Rightarrow> string list \<Rightarrow> 'm client \<Rightarrow> ((exn + bool) \<times> 'm client) option" where
  "subscribe_orderbook n e markets s = u_subscribe n e ''orderbook'' markets s"

definition subscribe_trade ::
  "nat \<Rightarrow> 'm env \<Rightarrow> string list \<Rightarrow> 'm client \<Rightarrow> ((exn + bool) \<times> 'm client) option" where
  "subscribe_trade n e markets s = u_subscribe n e ''trade'' markets s"

text \<open>\<^verbatim>\<open>close\<close> (129-139): the \<^verbatim>\<open>finally\<close> step runs whether closing fails or not.\<close>

definition close :: "'m env \<Rightarrow> 'm client \<Rightarrow> 'm client" where
  "close e s =
    (case websocket s of
       None \<Rightarrow> s
     | Some w \<Rightarrow>
         (case ws_close e (tick s) of
            None \<Rightarrow> s\<lparr>websocket := None, is_connected := False, tick := Suc (tick s)\<rparr>
          | Some x \<Rightarrow> s\<lparr>websocket := None, is_connected := False, tick := Suc (tick s),
                        error_log := error_log s @ [LogCloseError]\<rparr>))"

text \<open>\<^verbatim>\<open>unsubscribe\<close> (231-267).\<close>

definition unsubscribe ::
  "nat \<Rightarrow> 'm env \<Rightarrow> string \<Rightarrow> string option \<Rightarrow> 'm client \<Rightarrow> (bool \<times> 'm client) option" where
  "unsubscribe n e market type_name s =
    (if market \<notin> subscribed_markets s then Some (False, s)
     else
       (case connect n e (close e (unregister market type_name s)) of
          None \<Rightarrow> None
        | Some (Inl x, s1) \<Rightarrow>
            Some (False, s1\<lparr>error_log := error_log s1 @ [LogUnsubscribeError]\<rparr>)
        | Some (Inr u, s1) \<Rightarrow>
            (case resubscribe_all n e s1 of
               None \<Rightarrow> None
             | Some (Inl x, s2) \<Rightarrow>
                 Some (False, s2\<lparr>error_log := error_log s2 @ [LogUnsubscribeError]\<rparr>)
             | Some (Inr v, s2) \<Rightarrow> Some (True, s2))))"

subsection \<open>The message pipeline\<close>






text \<open>
  One pass of the \<^verbatim>\<open>while True\<close> of \<^verbatim>\<open>_message_processor\<close> (364-380).  On an
  empty queue \<^verbatim>\<open>get\<close> suspends the task: nothing changes.  An exception of the
  callback is caught and logged.
\<close>

definition processor_iteration :: "'m env \<Rightarrow> 'm client \<Rightarrow> 'm client" where
  "processor_iteration e s =
    (case message_queue s of
       [] \<Rightarrow> s
     | message # rest \<Rightarrow>
         if has_callback s then
           (case callback e message (tick s) of
              None \<Rightarrow>
                s\<lparr>message_queue := rest, callback_calls := callback_calls s @ [message],
                  tick := Suc (tick s)\<rparr>
            | Some x \<Rightarrow>
                s\<lparr>message_queue := rest, callback_calls := callback_calls s @ [message],
                  tick := Suc (tick s), error_log := error_log s @ [LogCallbackError]\<rparr>)
         else s\<lparr>message_queue := rest\<rparr>)"

fun u_message_processor :: "nat \<Rightarrow> 'm env \<Rightarrow> 'm client \<Rightarrow> 'm client" where
  "u_message_processor 0 e s = s"
| "u_message_processor (Suc k) e s = u_message_processor k e (processor_iteration e s)"







subsection \<open>The constructed client and the registry invariant\<close>

text \<open>\<^verbatim>\<open>__init__\<close> (24-45); the \<^verbatim>\<open>DatabaseManager\<close> is constructed there.\<close>

definition init :: "'m env \<Rightarrow> string \<Rightarrow> bool \<Rightarrow> 'm client" where
  "init e key cb =
     db_init e
       \<lparr>access_key = key, secret_key = None, db_connection = False, db_cursor = False,
        websocket = None, is_connected = False, has_callback = cb,
        subscribed_markets = {}, subscribed_types = [], auth_token = None,
        auth_expires_at = None, message_queue = [], tick = 0, send_log = [],
        db_writes = [], received = [], callback_calls = [], error_log = []\<rparr>"

text \<open>
  The registry is consistent: the dictionary has each key once (as every dictionary), its
  keys are the set \<open>subscribed_markets\<close>, and no market has an empty list of types.
\<close>

definition reg_inv :: "'m client \<Rightarrow> bool" where
  "reg_inv s \<longleftrightarrow>
     distinct (map fst (subscribed_types s)) \<and>
     subscribed_markets s = fst ` set (subscribed_types s) \<and>
     [] \<notin> snd ` set (subscribed_types s)"

subsection \<open>Relations between the state before and after a call\<close>

text \<open>
  \<open>pipe_same\<close>: the queue, the callback and the record of frames read are untouched
  and the step counter has not gone back.  \<open>reg_same\<close>: the registry is the same.
  \<open>auth_frame\<close>: in addition the connection, the frames sent and the keys are the same.
\<close>

definition pipe_same :: "'m client \<Rightarrow> 'm client \<Rightarrow> bool" where
  "pipe_same s s' \<longleftrightarrow>
     message_queue s' = message_queue s \<and> callback_calls s' = callback_calls s \<and>
     received s' = received s \<and> has_callback s' = has_callback s \<and> tick s \<le> tick s'"

definition reg_same :: "'m client \<Rightarrow> 'm client \<Rightarrow> bool" where
  "reg_same s s' \<longleftrightarrow>
     subscribed_markets s' = subscribed_markets s \<and> subscribed_types s' = subscribed_types s"

definition auth_frame :: "'m client \<Rightarrow> 'm client \<Rightarrow> bool" where
  "auth_frame s s' \<longleftrightarrow>
     pipe_same s s' \<and> reg_same s s' \<and> websocket s' = websocket s \<and>
     is_connected s' = is_connected s \<and> send_log s' = send_log s \<and>
     secret_key s' = secret_key s \<and> access_key s' = access_key s"

text \<open>
  What a coroutine that is called may be relied on for: \<open>conn_spec\<close> for
  \<^verbatim>\<open>connect\<close> and \<^verbatim>\<open>resubscribe_all\<close>, \<open>sub_spec\<close> for \<^verbatim>\<open>_subscribe\<close>.
\<close>

definition conn_spec :: "('m client \<Rightarrow> ((exn + unit) \<times> 'm client) option) \<Rightarrow> bool" where
  "conn_spec conn \<longleftrightarrow>
     (\<forall>s r s'. conn s = Some (r, s') \<longrightarrow> pipe_same s s' \<and> (reg_inv s \<longrightarrow> reg_same s s'))"

definition sub_spec ::
  "(string \<Rightarrow> string list \<Rightarrow> 'm client \<Rightarrow> ((exn + bool) \<times> 'm client) option) \<Rightarrow> bool" where
  "sub_spec sub \<longleftrightarrow>
     (\<forall>t ms s r s'. sub t ms s = Some (r, s') \<longrightarrow>
        pipe_same s s' \<and>
        (reg_inv s \<longrightarrow> reg_inv s' \<and>
           (set ms \<subseteq> set (markets_for t (subscribed_types s)) \<longrightarrow> reg_same s s')))"



text \<open>The channel type and the codes of each subscription frame that was sent with
  success, in the order sent.\<close>

fun request_of :: "ws_out \<times> bool \<Rightarrow> (string \<times> string list) list" where
  "request_of (SubscriptionFrame (Ticket u # Request type_name codes realtime # rest), True) =
     [(type_name, codes)]"
| "request_of other = []"

definition sent_requests :: "(ws_out \<times> bool) list \<Rightarrow> (string \<times> string list) list" where
  "sent_requests log = concat (map request_of log)"

text \<open>The client is connected and holds a token that does not expire.\<close>

definition ready :: "'m env \<Rightarrow> 'm client \<Rightarrow> bool" where
  "ready e s \<longleftrightarrow>
     is_connected s \<and> websocket s \<noteq> None \<and>
     (\<exists>token expires_at. auth_token s = Some token \<and> token \<noteq> [] \<and>
        auth_expires_at s = Some expires_at \<and> (\<forall>k. now e k < expires_at))"

subsection \<open>Concrete environments and clients\<close>

text \<open>
  The decoder of the concrete environments, given on the frames of the runs below, where
  it answers as \<^verbatim>\<open>json.loads\<close> does: the empty object and the arrays \<^verbatim>\<open>[1]\<close> and
  \<^verbatim>\<open>[2]\<close> decode, as text and as bytes, and \<^verbatim>\<open>not json\<close> and \<^verbatim>\<open>ping\<close> raise
  \<^verbatim>\<open>JSONDecodeError\<close>.  A decoded message is shown by its JSON text.
\<close>

fun loads0 :: "frame \<Rightarrow> string loaded" where
  "loads0 (Text t) =
     (if t \<in> set [''{}'', ''[1]'', ''[2]''] then Decoded t else JSONDecodeError)"
| "loads0 (Binary b) =
     (if b \<in> set [''{}'', ''[1]'', ''[2]''] then Decoded b else JSONDecodeError)"

text \<open>
  An environment in which everything works: the network and the database never fail and
  the token table holds a token that expires at second 100.  \<open>client0\<close> is the client
  as constructed in it.
\<close>

definition env0 :: "string env" where
  "env0 =
     \<lparr>uuid4 = (\<lambda>n. ''uuid''), now = (\<lambda>n. 0),
      jwt_encode = (\<lambda>a n k. a @ n @ k),
      json_loads = loads0,
      ws_connect = (\<lambda>n. None), ws_closed = (\<lambda>n. False), ws_close = (\<lambda>n. None),
      ws_send = (\<lambda>n. None), ws_recv = (\<lambda>n. Inr (Text ''{}'')),
      callback = (\<lambda>m n. None),
      mysql_connect = (\<lambda>n. True), mysql_is_connected = (\<lambda>n. True),
      mysql_execute = (\<lambda>n. True), mysql_commit = (\<lambda>n. True),
      mysql_fetchone = (\<lambda>n. Some (''token'', 100))\<rparr>"

definition client0 :: "string client" where
  "client0 = init env0 ''key'' True"

text \<open>An environment whose callback always raises, and a client with two queued messages.\<close>

definition env_raising :: "string env" where
  "env_raising = env0\<lparr>callback := (\<lambda>m n. Some OtherException)\<rparr>"

definition client_queued :: "string client" where
  "client_queued = client0\<lparr>message_queue := [''[1]'', ''[2]'']\<rparr>"

text \<open>The client after its first subscription, and an environment whose next frame does
  not decode.\<close>

definition client1 :: "string client" where
  "client1 =
     client0\<lparr>websocket := Some 3, is_connected := True,
       subscribed_markets := {''KRW-BTC''},
       subscribed_types := [(''KRW-BTC'', [''ticker''])],
       auth_token := Some ''token'', auth_expires_at := Some 100, tick := 11,
       send_log := [(SubscriptionFrame [Ticket ''uuid'',
          Request ''ticker'' [''KRW-BTC''] True, Format ''SIMPLE''], True)]\<rparr>"








text \<open>Environments in which one send fails (the one at step 13), in which every send
  fails, and in which the database is gone from step 6 on and cannot be reached again.\<close>

definition env_one_failure :: "string env" where
  "env_one_failure =
     env0\<lparr>ws_send := (\<lambda>n. if n = 13 then Some ConnectionClosed else None)\<rparr>"

definition env_send_fails :: "string env" where
  "env_send_fails = env0\<lparr>ws_send := (\<lambda>n. Some ConnectionClosed)\<rparr>"

definition env_db_drops :: "string env" where
  "env_db_drops =
     env0\<lparr>mysql_fetchone := (\<lambda>n. None), mysql_is_connected := (\<lambda>n. n < 6),
          mysql_connect := (\<lambda>n. False)\<rparr>"

text \<open>The constructed client after its caller has set the signing key.\<close>

definition client_keyed :: "string client" where
  "client_keyed = client0\<lparr>secret_key := Some ''secret''\<rparr>"

text \<open>The frame that subscribes one market to the ticker channel in \<open>env0\<close>.\<close>

definition ticker_frame :: "string \<Rightarrow> ws_out" where
  "ticker_frame market =
     SubscriptionFrame [Ticket ''uuid'', Request ''ticker'' [market] True, Format ''SIMPLE'']"

text \<open>\<open>client1\<close> after a second, successful subscription.\<close>

definition client2 :: "string client" where
  "client2 =
     client1\<lparr>subscribed_markets := {''KRW-ETH'', ''KRW-BTC''},
       subscribed_types := [(''KRW-BTC'', [''ticker'']), (''KRW-ETH'', [''ticker''])],
       tick := 14,
       send_log := [(ticker_frame ''KRW-BTC'', True), (ticker_frame ''KRW-ETH'', True)]\<rparr>"

text \<open>\<open>client1\<close> after a second subscription whose send failed.\<close>

definition client_failed :: "string client" where
  "client_failed =
     client1\<lparr>websocket := None, is_connected := False, tick := 14,
       send_log := [(ticker_frame ''KRW-BTC'', True), (ticker_frame ''KRW-ETH'', False)],
       error_log := [LogSubscribeError ''ticker'']\<rparr>"

text \<open>\<open>client_failed\<close> after \<^verbatim>\<open>resubscribe_all\<close>.\<close>

definition client_replayed :: "string client" where
  "client_replayed =
     client_failed\<lparr>websocket := Some 14, is_connected := True, tick := 21,
       send_log := [(ticker_frame ''KRW-BTC'', True), (ticker_frame ''KRW-ETH'', False),
                    (ticker_frame ''KRW-BTC'', True), (ticker_frame ''KRW-BTC'', True)]\<rparr>"

text \<open>An environment whose database reports errors on every statement.\<close>

definition env_db_errors :: "string env" where
  "env_db_errors = env0\<lparr>mysql_fetchone := (\<lambda>n. None), mysql_execute := (\<lambda>n. False)\<rparr>"

text \<open>An environment whose token table is empty.\<close>

definition env_empty_table :: "string env" where
  "env_empty_table = env0\<lparr>mysql_fetchone := (\<lambda>n. None)\<rparr>"

section \<open>Properties\<close>

subsection \<open>The database and the token leave the connection and the registry alone\<close>

lemmas frame_defs = auth_frame_def pipe_same_def reg_same_def

lemma auth_frame_refl: "auth_frame s s"
  by (simp add: frame_defs)

lemma auth_frame_trans: "auth_frame s s1 \<Longrightarrow> auth_frame s1 s2 \<Longrightarrow> auth_frame s s2"
  by (simp add: frame_defs)

lemma reg_same_inv: "reg_same s s' \<Longrightarrow> reg_inv s \<Longrightarrow> reg_inv s'"
  by (simp add: reg_same_def reg_inv_def)

lemma reg_same_trans: "reg_same s s1 \<Longrightarrow> reg_same s1 s2 \<Longrightarrow> reg_same s s2"
  by (simp add: reg_same_def)

lemma pipe_same_trans: "pipe_same s s1 \<Longrightarrow> pipe_same s1 s2 \<Longrightarrow> pipe_same s s2"
  by (simp add: pipe_same_def)

lemma db_init_frame: "auth_frame s (db_init e s)"
  by (simp add: db_init_def frame_defs)

lemma db_ensure_connection_frame: "auth_frame s (db_ensure_connection e s)"
  by (simp add: db_ensure_connection_def db_init_def tock_def frame_defs)

lemma save_auth_frame: "auth_frame s (snd (save_auth e a t x s))"
proof -
  define s1 where "s1 = db_ensure_connection e s"
  have "auth_frame s s1"
    unfolding s1_def by (rule db_ensure_connection_frame)
  then show ?thesis
    unfolding save_auth_def s1_def [symmetric] Let_def
    by (simp add: frame_defs)
qed

lemma get_auth_frame: "auth_frame s (snd (get_auth e a s))"
proof -
  define s1 where "s1 = db_ensure_connection e s"
  have "auth_frame s s1"
    unfolding s1_def by (rule db_ensure_connection_frame)
  then show ?thesis
    unfolding get_auth_def s1_def [symmetric] Let_def
    by (simp add: frame_defs)
qed

lemma mint_token_frame: "auth_frame s (snd (mint_token e s))"
proof (cases "secret_key s")
  case None
  then show ?thesis
    by (simp add: mint_token_def u_create_jwt_token_def Let_def tock_def frame_defs)
next
  case (Some key)
  define tok where "tok = jwt_encode e (access_key s) (uuid4 e (tick s)) key"
  define s2 where "s2 = (tock s)\<lparr>auth_token := Some tok,
      auth_expires_at := Some (now e (tick (tock s)) + TOKEN_REFRESH_INTERVAL),
      tick := Suc (tick (tock s))\<rparr>"
  have a: "auth_frame s s2"
    by (simp add: s2_def tock_def frame_defs)
  have b: "auth_frame s2 (snd (save_auth e ''websocket'' tok
      (now e (tick (tock s)) + TOKEN_REFRESH_INTERVAL) s2))"
    by (rule save_auth_frame)
  have "snd (mint_token e s) = snd (save_auth e ''websocket'' tok
      (now e (tick (tock s)) + TOKEN_REFRESH_INTERVAL) s2)"
    using Some
    by (simp add: mint_token_def u_create_jwt_token_def Let_def tok_def s2_def
        split: prod.split sum.split)
  with a b show ?thesis
    by (simp add: auth_frame_trans)
qed

lemma u_ensure_auth_frame: "auth_frame s (snd (u_ensure_auth e s))"
proof (cases "cached_token (now e (tick s)) s")
  case (Some token)
  then show ?thesis
    by (simp add: u_ensure_auth_def tock_def frame_defs)
next
  case None
  define g where "g = get_auth e ''websocket'' (tock s)"
  have a: "auth_frame s (tock s)"
    by (simp add: tock_def frame_defs)
  have "auth_frame (tock s) (snd g)"
    unfolding g_def by (rule get_auth_frame)
  with a have b: "auth_frame s (snd g)"
    by (rule auth_frame_trans)
  have m: "auth_frame s (snd (mint_token e (snd g)))"
    using b mint_token_frame by (rule auth_frame_trans)
  have t: "auth_frame (snd g) (tock (snd g))"
    by (simp add: tock_def frame_defs)
  have m': "auth_frame s (snd (mint_token e (tock (snd g))))"
    using auth_frame_trans [OF b t] mint_token_frame by (rule auth_frame_trans)
  have u: "\<And>c x. auth_frame s ((snd g)\<lparr>auth_token := Some c, auth_expires_at := Some x,
      tick := Suc (tick (snd g))\<rparr>)"
    using b by (simp add: frame_defs)
  show ?thesis
    using None m m' u b
    unfolding u_ensure_auth_def g_def [symmetric]
    by (cases g) (simp split: sum.split option.split prod.split)
qed


subsection \<open>The registry operations keep the invariant\<close>

lemma set_update_subset: "set (AList.update k v al) \<subseteq> insert (k, v) (set al)"
  by (induction al) auto

lemma set_delete_subset: "set (AList.delete k al) \<subseteq> set al"
  by (induction al) auto

lemma keys_delete: "fst ` set (AList.delete k al) = fst ` set al - {k}"
  by (induction al) auto

lemma register_market_types:
  "subscribed_types (register_market t m s) =
     (if t \<in> set (types_of (subscribed_types s) m) then subscribed_types s
      else AList.update m (types_of (subscribed_types s) m @ [t]) (subscribed_types s))"
  by (auto simp: register_market_def types_of_def Let_def AList.update_conv'
      split: option.splits)

lemma register_market_markets:
  "subscribed_markets (register_market t m s) = insert m (subscribed_markets s)"
  by (simp add: register_market_def Let_def)

lemma types_of_mem: "t \<in> set (types_of T m) \<Longrightarrow> m \<in> fst ` set T"
proof (cases "map_of T m")
  case None
  then show ?thesis if "t \<in> set (types_of T m)"
    using that by (simp add: types_of_def)
next
  case (Some ts)
  then have "(m, ts) \<in> set T"
    by (rule map_of_SomeD)
  then show ?thesis if "t \<in> set (types_of T m)"
    by (auto intro: rev_image_eqI)
qed

lemma register_market_inv: "reg_inv s \<Longrightarrow> reg_inv (register_market t m s)"
  unfolding reg_inv_def register_market_types register_market_markets
  using set_update_subset [of m "types_of (subscribed_types s) m @ [t]" "subscribed_types s"]
  by (auto simp: AList.distinct_update AList.dom_update dest: types_of_mem)

lemma register_markets_inv: "reg_inv s \<Longrightarrow> reg_inv (register_markets t ms s)"
  unfolding register_markets_def
  by (induction ms arbitrary: s) (simp_all add: register_market_inv)

lemma markets_for_iff:
  "m \<in> set (markets_for t T) \<longleftrightarrow> (\<exists>ts. (m, ts) \<in> set T \<and> t \<in> set ts)"
  by (auto simp: markets_for_def intro: rev_image_eqI)

lemma register_market_same:
  assumes "reg_inv s" "m \<in> set (markets_for t (subscribed_types s))"
  shows "reg_same s (register_market t m s)"
proof -
  from assms(2) obtain ts where ts: "(m, ts) \<in> set (subscribed_types s)" "t \<in> set ts"
    by (auto simp: markets_for_iff)
  with assms(1) have "map_of (subscribed_types s) m = Some ts"
    by (simp add: reg_inv_def)
  with ts have "t \<in> set (types_of (subscribed_types s) m)"
    by (simp add: types_of_def)
  moreover from ts assms(1) have "m \<in> subscribed_markets s"
    by (auto simp: reg_inv_def intro: rev_image_eqI)
  ultimately show ?thesis
    by (auto simp: reg_same_def register_market_types register_market_markets)
qed

lemma register_markets_same:
  "reg_inv s \<Longrightarrow> set ms \<subseteq> set (markets_for t (subscribed_types s)) \<Longrightarrow>
   reg_same s (register_markets t ms s)"
  unfolding register_markets_def
proof (induction ms arbitrary: s)
  case Nil
  then show ?case by (simp add: reg_same_def)
next
  case (Cons m ms)
  have 1: "reg_same s (register_market t m s)"
    using Cons.prems by (simp add: register_market_same)
  then have 2: "reg_inv (register_market t m s)"
    using Cons.prems(1) by (simp add: reg_same_def reg_inv_def)
  have "reg_same (register_market t m s) (fold (register_market t) ms (register_market t m s))"
    using 1 2 Cons.prems(2) by (intro Cons.IH) (simp_all add: reg_same_def)
  with 1 show ?case
    by (simp add: reg_same_def)
qed

lemma register_market_other:
  "websocket (register_market t m s) = websocket s \<and>
   is_connected (register_market t m s) = is_connected s \<and>
   send_log (register_market t m s) = send_log s \<and>
   auth_token (register_market t m s) = auth_token s \<and>
   auth_expires_at (register_market t m s) = auth_expires_at s \<and>
   tick (register_market t m s) = tick s \<and>
   message_queue (register_market t m s) = message_queue s \<and>
   callback_calls (register_market t m s) = callback_calls s \<and>
   received (register_market t m s) = received s \<and>
   has_callback (register_market t m s) = has_callback s"
  by (simp add: register_market_def Let_def)

lemma register_markets_other:
  "websocket (register_markets t ms s) = websocket s \<and>
   is_connected (register_markets t ms s) = is_connected s \<and>
   send_log (register_markets t ms s) = send_log s \<and>
   auth_token (register_markets t ms s) = auth_token s \<and>
   auth_expires_at (register_markets t ms s) = auth_expires_at s \<and>
   tick (register_markets t ms s) = tick s \<and>
   message_queue (register_markets t ms s) = message_queue s \<and>
   callback_calls (register_markets t ms s) = callback_calls s \<and>
   received (register_markets t ms s) = received s \<and>
   has_callback (register_markets t ms s) = has_callback s"
  unfolding register_markets_def
  by (induction ms arbitrary: s) (simp_all add: register_market_other)

lemma unregister_inv: "reg_inv s \<Longrightarrow> reg_inv (unregister market type_name s)"
proof -
  assume inv: "reg_inv s"
  let ?T = "subscribed_types s"
  have drop: "reg_inv (s\<lparr>subscribed_types := AList.delete market ?T,
                         subscribed_markets := subscribed_markets s - {market}\<rparr>)"
    using inv set_delete_subset [of market ?T]
    by (auto simp: reg_inv_def AList.distinct_delete keys_delete)
  have upd: "reg_inv (s\<lparr>subscribed_types := AList.update market (remove1 t ts) ?T\<rparr>)"
    if "map_of ?T market = Some ts" "remove1 t ts \<noteq> []" for t ts
  proof -
    from that(1) have "market \<in> fst ` set ?T"
      by (auto dest!: map_of_SomeD intro: rev_image_eqI)
    then show ?thesis
      using inv that(2) set_update_subset [of market "remove1 t ts" ?T]
      by (auto simp: reg_inv_def AList.distinct_update AList.dom_update)
  qed
  show ?thesis
    using drop upd inv
    by (simp add: unregister_def Let_def split: option.split)
qed

subsection \<open>One subscription attempt\<close>

lemma register_market_cong:
  "reg_same s s1 \<Longrightarrow> reg_same (register_market t m s) (register_market t m s1)"
  by (simp add: reg_same_def register_market_types register_market_markets)

lemma register_markets_cong:
  "reg_same s s1 \<Longrightarrow> reg_same (register_markets t ms s) (register_markets t ms s1)"
  unfolding register_markets_def
  by (induction ms arbitrary: s s1) (simp_all add: register_market_cong)

lemma subscribe_message_frame: "auth_frame s (snd (subscribe_message e t ms s))"
proof -
  have a: "auth_frame s (tock s)"
    by (simp add: tock_def frame_defs)
  then have "auth_frame s (snd (u_ensure_auth e (tock s)))"
    using u_ensure_auth_frame by (rule auth_frame_trans)
  with a show ?thesis
    by (cases "u_ensure_auth e (tock s)"; cases "fst (u_ensure_auth e (tock s))")
       (simp_all add: subscribe_message_def Let_def)
qed

lemma subscribe_try_cases:
  obtains
    (no_message) x s1 where
      "subscribe_message e t ms s = (Inl x, s1)"
      "subscribe_try e t ms s = (False, subscribe_failed t s1)"
  | (no_socket) msg s1 where
      "subscribe_message e t ms s = (Inr msg, s1)" "websocket s1 = None"
      "subscribe_try e t ms s = (False, subscribe_failed t s1)"
  | (send_failed) msg s1 w x where
      "subscribe_message e t ms s = (Inr msg, s1)" "websocket s1 = Some w"
      "ws_send e (tick s1) = Some x"
      "subscribe_try e t ms s =
         (False, subscribe_failed t
            (s1\<lparr>tick := Suc (tick s1),
                send_log := send_log s1 @ [(SubscriptionFrame msg, False)]\<rparr>))"
  | (sent) msg s1 w where
      "subscribe_message e t ms s = (Inr msg, s1)" "websocket s1 = Some w"
      "ws_send e (tick s1) = None"
      "subscribe_try e t ms s =
         (True, register_markets t ms
            (s1\<lparr>tick := Suc (tick s1),
                send_log := send_log s1 @ [(SubscriptionFrame msg, True)]\<rparr>))"
proof (cases "subscribe_message e t ms s")
  case (Pair r s1)
  show ?thesis
  proof (cases r)
    case (Inl x)
    with Pair show ?thesis
      by (intro no_message [of x s1]) (simp_all add: subscribe_try_def)
  next
    case (Inr msg)
    show ?thesis
    proof (cases "websocket s1")
      case None
      with Pair Inr show ?thesis
        by (intro no_socket [of msg s1]) (simp_all add: subscribe_try_def)
    next
      case (Some w)
      show ?thesis
      proof (cases "ws_send e (tick s1)")
        case None
        with Pair Inr Some show ?thesis
          by (intro sent [of msg s1 w]) (simp_all add: subscribe_try_def)
      next
        case (Some x)
        with Pair Inr \<open>websocket s1 = Some w\<close> show ?thesis
          by (intro send_failed [of msg s1 w x]) (simp_all add: subscribe_try_def)
      qed
    qed
  qed
qed

lemma subscribe_try_pipe: "pipe_same s (snd (subscribe_try e t ms s))"
proof (cases rule: subscribe_try_cases [of e t ms s])
  case (no_message x s1)
  with subscribe_message_frame [of s e t ms] show ?thesis
    by (simp add: subscribe_failed_def frame_defs)
next
  case (no_socket msg s1)
  with subscribe_message_frame [of s e t ms] show ?thesis
    by (simp add: subscribe_failed_def frame_defs)
next
  case (send_failed msg s1 w x)
  with subscribe_message_frame [of s e t ms] show ?thesis
    by (simp add: subscribe_failed_def frame_defs)
next
  case (sent msg s1 w)
  with subscribe_message_frame [of s e t ms] show ?thesis
    by (simp add: frame_defs register_markets_other)
qed

lemma subscribe_try_False:
  assumes "subscribe_try e t ms s = (False, s')"
  shows "reg_same s s' \<and> \<not> is_connected s' \<and> websocket s' = None"
proof (cases rule: subscribe_try_cases [of e t ms s])
  case (no_message x s1)
  from assms no_message(2) have s': "s' = subscribe_failed t s1" by simp
  from subscribe_message_frame [of s e t ms] no_message(1) have "auth_frame s s1" by simp
  then show ?thesis
    unfolding s' by (simp add: subscribe_failed_def frame_defs)
next
  case (no_socket msg s1)
  from assms no_socket(3) have s': "s' = subscribe_failed t s1" by simp
  from subscribe_message_frame [of s e t ms] no_socket(1) have "auth_frame s s1" by simp
  then show ?thesis
    unfolding s' by (simp add: subscribe_failed_def frame_defs)
next
  case (send_failed msg s1 w x)
  from assms send_failed(4) have s': "s' = subscribe_failed t
      (s1\<lparr>tick := Suc (tick s1),
          send_log := send_log s1 @ [(SubscriptionFrame msg, False)]\<rparr>)" by simp
  from subscribe_message_frame [of s e t ms] send_failed(1) have "auth_frame s s1" by simp
  then show ?thesis
    unfolding s' by (simp add: subscribe_failed_def frame_defs)
next
  case (sent msg s1 w)
  with assms show ?thesis by simp
qed

lemma subscribe_try_True:
  assumes "subscribe_try e t ms s = (True, s')"
  shows "reg_same (register_markets t ms s) s'"
proof (cases rule: subscribe_try_cases [of e t ms s])
  case (sent msg s1 w)
  let ?s2 = "s1\<lparr>tick := Suc (tick s1),
                send_log := send_log s1 @ [(SubscriptionFrame msg, True)]\<rparr>"
  from sent subscribe_message_frame [of s e t ms] have "reg_same s ?s2"
    by (simp add: frame_defs)
  then have "reg_same (register_markets t ms s) (register_markets t ms ?s2)"
    by (rule register_markets_cong)
  with sent assms show ?thesis by simp
qed (use assms in simp_all)

lemma subscribe_try_reg:
  assumes "reg_inv s" "subscribe_try e t ms s = (b, s')"
  shows "reg_inv s'"
    and "set ms \<subseteq> set (markets_for t (subscribed_types s)) \<Longrightarrow> reg_same s s'"
proof -
  have "reg_inv s' \<and> (set ms \<subseteq> set (markets_for t (subscribed_types s)) \<longrightarrow> reg_same s s')"
  proof (cases b)
    case False
    with assms(2) have "reg_same s s'"
      by (simp add: subscribe_try_False)
    with assms(1) show ?thesis
      by (simp add: reg_same_inv)
  next
    case True
    with assms(2) have r: "reg_same (register_markets t ms s) s'"
      by (simp add: subscribe_try_True)
    have i: "reg_inv (register_markets t ms s)"
      using assms(1) by (rule register_markets_inv)
    have "reg_same s s'" if "set ms \<subseteq> set (markets_for t (subscribed_types s))"
      using register_markets_same [OF assms(1) that] r by (simp add: reg_same_def)
    moreover have "reg_inv s'"
      using r i by (rule reg_same_inv)
    ultimately show ?thesis
      by simp
  qed
  then show "reg_inv s'"
    and "set ms \<subseteq> set (markets_for t (subscribed_types s)) \<Longrightarrow> reg_same s s'"
    by simp_all
qed

lemma pipe_same_refl: "pipe_same s s"
  by (simp add: pipe_same_def)

lemma reg_same_refl: "reg_same s s"
  by (simp add: reg_same_def)

lemma subscribe_try_spec:
  assumes "subscribe_try e t ms s = (b, s')"
  shows "pipe_same s s' \<and>
        (reg_inv s \<longrightarrow> reg_inv s' \<and>
           (set ms \<subseteq> set (markets_for t (subscribed_types s)) \<longrightarrow> reg_same s s'))"
  using subscribe_try_pipe [of s e t ms] subscribe_try_reg [OF _ assms] assms
  by simp

lemma u_subscribe_with_spec:
  assumes "conn_spec conn"
  shows "sub_spec (u_subscribe_with conn e)"
  unfolding sub_spec_def
proof (intro allI impI)
  fix t ms s r s'
  assume run: "u_subscribe_with conn e t ms s = Some (r, s')"
  let ?goal = "pipe_same s s' \<and>
        (reg_inv s \<longrightarrow> reg_inv s' \<and>
           (set ms \<subseteq> set (markets_for t (subscribed_types s)) \<longrightarrow> reg_same s s'))"
  show ?goal
  proof (cases "\<not> is_connected s \<or> websocket s = None")
    case False
    obtain b s2 where st: "subscribe_try e t ms s = (b, s2)"
      by (cases "subscribe_try e t ms s")
    with run False have "s' = s2"
      by (auto simp: u_subscribe_with_def)
    with subscribe_try_spec [OF st] show ?thesis by simp
  next
    case True
    show ?thesis
    proof (cases "conn s")
      case None
      with run True show ?thesis
        by (simp add: u_subscribe_with_def)
    next
      case (Some p)
      obtain r1 s1 where p: "p = (r1, s1)" by (cases p)
      from assms Some p have c: "pipe_same s s1" "reg_inv s \<Longrightarrow> reg_same s s1"
        by (simp_all add: conn_spec_def)
      show ?thesis
      proof (cases r1)
        case (Inl x)
        with run True Some p have "s' = s1"
          by (simp add: u_subscribe_with_def)
        with c show ?thesis
          by (blast intro: reg_same_inv)
      next
        case (Inr u)
        obtain b s2 where st: "subscribe_try e t ms s1 = (b, s2)"
          by (cases "subscribe_try e t ms s1")
        with run True Some p Inr have s': "s' = s2"
          by (simp add: u_subscribe_with_def)
        note sp = subscribe_try_spec [OF st]
        have "pipe_same s s2"
          using c(1) sp by (simp add: pipe_same_trans)
        moreover have "reg_inv s2" if "reg_inv s"
          using c(2) [OF that] that sp by (simp add: reg_same_inv)
        moreover have "reg_same s s2"
          if "reg_inv s" "set ms \<subseteq> set (markets_for t (subscribed_types s))"
        proof -
          from c(2) [OF that(1)] have r: "reg_same s s1" .
          then have "subscribed_types s1 = subscribed_types s"
            by (simp add: reg_same_def)
          with that sp r have "reg_same s1 s2"
            by (simp add: reg_same_inv)
          with r show ?thesis by (rule reg_same_trans)
        qed
        ultimately show ?thesis
          unfolding s' by simp
      qed
    qed
  qed
qed

lemma resubscribe_loop_spec:
  assumes "sub_spec sub"
  shows "resubscribe_loop sub ts s = Some (r, s') \<Longrightarrow>
         pipe_same s s' \<and> (reg_inv s \<longrightarrow> reg_same s s')"
proof (induction ts arbitrary: s)
  case Nil
  then show ?case
    by (simp add: pipe_same_refl reg_same_refl)
next
  case (Cons t ts)
  let ?ms = "markets_for t (subscribed_types s)"
  show ?case
  proof (cases "?ms = []")
    case True
    with Cons show ?thesis by simp
  next
    case False
    show ?thesis
    proof (cases "sub t ?ms s")
      case None
      with Cons.prems False show ?thesis by simp
    next
      case (Some p)
      obtain r1 s1 where p: "p = (r1, s1)" by (cases p)
      from assms Some p have c: "pipe_same s s1" "reg_inv s \<Longrightarrow> reg_same s s1"
        unfolding sub_spec_def by blast+
      show ?thesis
      proof (cases r1)
        case (Inl x)
        with Cons.prems False Some p have "s' = s1" by simp
        with c show ?thesis by simp
      next
        case (Inr b)
        with Cons.prems False Some p have "resubscribe_loop sub ts s1 = Some (r, s')"
          by simp
        from Cons.IH [OF this] have ih: "pipe_same s1 s'" "reg_inv s1 \<Longrightarrow> reg_same s1 s'"
          by simp_all
        have "reg_same s s'" if "reg_inv s"
          using c(2) [OF that] ih(2) that by (blast intro: reg_same_trans reg_same_inv)
        with c(1) ih(1) show ?thesis
          by (blast intro: pipe_same_trans)
      qed
    qed
  qed
qed

lemma resubscribe_all_with_spec:
  assumes "sub_spec sub"
  shows "conn_spec (resubscribe_all_with sub)"
  unfolding conn_spec_def
proof (intro allI impI)
  fix s r s'
  assume run: "resubscribe_all_with sub s = Some (r, s')"
  show "pipe_same s s' \<and> (reg_inv s \<longrightarrow> reg_same s s')"
  proof (cases "subscribed_types s = []")
    case True
    with run have "s' = s"
      by (simp add: resubscribe_all_with_def)
    then show ?thesis
      by (simp add: pipe_same_refl reg_same_refl)
  next
    case False
    with run have "resubscribe_loop sub [''ticker'', ''orderbook'', ''trade''] s = Some (r, s')"
      by (simp add: resubscribe_all_with_def del: resubscribe_loop.simps)
    then show ?thesis
      by (rule resubscribe_loop_spec [OF assms])
  qed
qed

lemma connect_try_spec:
  assumes "conn_spec resub"
  shows "conn_spec (connect_try resub e)"
  unfolding conn_spec_def
proof (intro allI impI)
  fix s r s'
  assume run: "connect_try resub e s = Some (r, s')"
  define s1 where "s1 =
     (case websocket s of
        None \<Rightarrow> s
      | Some w \<Rightarrow>
          (case ws_close e (tick s) of
             None \<Rightarrow> s\<lparr>websocket := None, tick := Suc (tick s)\<rparr>
           | Some x \<Rightarrow> s\<lparr>websocket := None, tick := Suc (tick s),
                         error_log := error_log s @ [LogCloseError]\<rparr>))"
  have a: "pipe_same s s1 \<and> reg_same s s1"
    by (simp add: s1_def frame_defs split: option.split)
  define s2 where "s2 = s1\<lparr>websocket := Some (tick s1), is_connected := True,
                           tick := Suc (tick s1)\<rparr>"
  have b: "pipe_same s s2 \<and> reg_same s s2"
    using a by (simp add: s2_def frame_defs)
  from run have run': "(case ws_connect e (tick s1) of
          Some x \<Rightarrow>
            Some (Inl x, s1\<lparr>is_connected := False, websocket := None, tick := Suc (tick s1),
                            error_log := error_log s1 @ [LogConnectError]\<rparr>)
        | None \<Rightarrow>
           (if subscribed_markets s2 \<noteq> {} then
                 (case resub s2 of
                    None \<Rightarrow> None
                  | Some (Inl x, s3) \<Rightarrow>
                      Some (Inl x, s3\<lparr>is_connected := False, websocket := None,
                                      error_log := error_log s3 @ [LogConnectError]\<rparr>)
                  | Some (Inr u, s3) \<Rightarrow> Some (Inr (), s3))
               else Some (Inr (), s2))) = Some (r, s')"
    unfolding connect_try_def s1_def [symmetric] Let_def s2_def [symmetric] .
  show "pipe_same s s' \<and> (reg_inv s \<longrightarrow> reg_same s s')"
  proof (cases "ws_connect e (tick s1)")
    case (Some x)
    with run' have "s' = s1\<lparr>is_connected := False, websocket := None, tick := Suc (tick s1),
                            error_log := error_log s1 @ [LogConnectError]\<rparr>"
      by simp
    with a show ?thesis
      by (simp add: frame_defs)
  next
    case None
    show ?thesis
    proof (cases "subscribed_markets s2 \<noteq> {}")
      case False
      with run' None have "s' = s2" by simp
      with b show ?thesis by simp
    next
      case True
      show ?thesis
      proof (cases "resub s2")
        case None
        with run' \<open>ws_connect e (tick s1) = None\<close> True show ?thesis by simp
      next
        case (Some p)
        obtain r3 s3 where p: "p = (r3, s3)" by (cases p)
        from assms Some p have c: "pipe_same s2 s3" "reg_inv s2 \<Longrightarrow> reg_same s2 s3"
          by (simp_all add: conn_spec_def)
        have d: "pipe_same s s3"
          using b c(1) by (blast intro: pipe_same_trans)
        have f: "reg_same s s3" if "reg_inv s"
          using b c(2) that by (blast intro: reg_same_trans reg_same_inv)
        show ?thesis
        proof (cases r3)
          case (Inl x)
          with run' \<open>ws_connect e (tick s1) = None\<close> True Some p
          have "s' = s3\<lparr>is_connected := False, websocket := None,
                        error_log := error_log s3 @ [LogConnectError]\<rparr>"
            by simp
          with d f show ?thesis
            by (simp add: frame_defs)
        next
          case (Inr u)
          with run' \<open>ws_connect e (tick s1) = None\<close> True Some p have "s' = s3"
            by simp
          with d f show ?thesis by simp
        qed
      qed
    qed
  qed
qed

lemma connect_with_spec:
  assumes "conn_spec resub"
  shows "conn_spec (connect_with resub e)"
  unfolding conn_spec_def
proof (intro allI impI)
  fix s r s'
  assume run: "connect_with resub e s = Some (r, s')"
  note ct = connect_try_spec [OF assms, of e, unfolded conn_spec_def, rule_format]
  have t: "pipe_same s (tock s) \<and> reg_same s (tock s)"
    by (simp add: tock_def frame_defs)
  show "pipe_same s s' \<and> (reg_inv s \<longrightarrow> reg_same s s')"
  proof (cases "websocket s")
    case None
    with run have "connect_try resub e s = Some (r, s')"
      by (simp add: connect_with_def)
    then show ?thesis by (rule ct)
  next
    case (Some w)
    show ?thesis
    proof (cases "ws_closed e (tick s)")
      case False
      with run Some have "s' = tock s"
        by (simp add: connect_with_def)
      with t show ?thesis by simp
    next
      case True
      with run Some have "connect_try resub e (tock s) = Some (r, s')"
        by (simp add: connect_with_def)
      from ct [OF this] t show ?thesis
        by (blast intro: pipe_same_trans reg_same_trans reg_same_inv)
    qed
  qed
qed

lemma connect_spec: "conn_spec (connect n e)"
proof (induction n)
  case 0
  show ?case by (simp add: conn_spec_def)
next
  case (Suc n)
  have "conn_spec (connect_with (resubscribe_all_with (u_subscribe_with (connect n e) e)) e)"
    by (intro connect_with_spec resubscribe_all_with_spec u_subscribe_with_spec Suc)
  then show ?case
    by (simp add: conn_spec_def)
qed

lemma u_subscribe_spec: "sub_spec (u_subscribe n e)"
  unfolding u_subscribe_def by (intro u_subscribe_with_spec connect_spec)

lemma resubscribe_all_spec: "conn_spec (resubscribe_all n e)"
  unfolding resubscribe_all_def by (intro resubscribe_all_with_spec u_subscribe_spec)

subsection \<open>Running the model on concrete inputs\<close>

lemmas run_defs =
  subscribe_ticker_def subscribe_orderbook_def subscribe_trade_def u_subscribe_def
  u_subscribe_with_def resubscribe_all_def resubscribe_all_with_def init_def
  db_init_def connect_with_def connect_try_def subscribe_try_def subscribe_message_def
  subscribe_failed_def u_ensure_auth_def cached_token_def get_auth_def save_auth_def
  mint_token_def u_create_jwt_token_def db_ensure_connection_def tock_def
  register_markets_def register_market_def types_of_def markets_for_def Let_def
  close_def unsubscribe_def unregister_def TOKEN_REFRESH_INTERVAL_def

lemma client0_eq:
  "client0 = \<lparr>access_key = ''key'', secret_key = None, db_connection = True,
    db_cursor = True, websocket = None, is_connected = False,
    has_callback = True, subscribed_markets = {}, subscribed_types = [],
    auth_token = None, auth_expires_at = None, message_queue = [], tick = 3,
    send_log = [], db_writes = [], received = [], callback_calls = [],
    error_log = []\<rparr>"
  by (simp add: client0_def env0_def init_def db_init_def)

lemma subscribe_ticker_client0:
  "subscribe_ticker 1 env0 [''KRW-BTC''] client0 =
   Some (Inr True,
   \<lparr>access_key = ''key'', secret_key = None, db_connection = True,
      db_cursor = True, websocket = Some 3, is_connected = True,
      has_callback = True, subscribed_markets = {''KRW-BTC''},
      subscribed_types = [(''KRW-BTC'', [''ticker''])],
      auth_token = Some ''token'', auth_expires_at = Some 100,
      message_queue = [], tick = 11,
      send_log =
        [(SubscriptionFrame
           [Ticket ''uuid'', Request ''ticker'' [''KRW-BTC''] True,
            Format ''SIMPLE''],
          True)],
      db_writes = [], received = [], callback_calls = [], error_log = []\<rparr>)"
  unfolding client0_eq
  by (simp add: run_defs env0_def)

subsection \<open>The registry invariant\<close>

text \<open>
  Claim C10.  The registry of the constructed client is consistent, and every public
  operation (\<^verbatim>\<open>subscribe_ticker\<close>, \<^verbatim>\<open>subscribe_orderbook\<close>, \<^verbatim>\<open>subscribe_trade\<close>,
  \<^verbatim>\<open>unsubscribe\<close>, \<^verbatim>\<open>resubscribe_all\<close>, \<^verbatim>\<open>connect\<close>, \<^verbatim>\<open>close\<close>) that starts
  with a consistent registry ends with one, whatever the network, the database and the
  clock do, and whether it returns or raises: \<open>subscribed_markets\<close> is the set of keys of
  \<open>subscribed_types\<close> and no market has an empty list of types.
\<close>

theorem registry_invariant:
  "reg_inv (init e key cb) \<and>
   (reg_inv s \<longrightarrow>
     (\<forall>markets r s'. subscribe_ticker n e markets s = Some (r, s') \<longrightarrow> reg_inv s') \<and>
     (\<forall>markets r s'. subscribe_orderbook n e markets s = Some (r, s') \<longrightarrow> reg_inv s') \<and>
     (\<forall>markets r s'. subscribe_trade n e markets s = Some (r, s') \<longrightarrow> reg_inv s') \<and>
     (\<forall>market type_name r s'.
         unsubscribe n e market type_name s = Some (r, s') \<longrightarrow> reg_inv s') \<and>
     (\<forall>r s'. resubscribe_all n e s = Some (r, s') \<longrightarrow> reg_inv s') \<and>
     (\<forall>r s'. connect n e s = Some (r, s') \<longrightarrow> reg_inv s') \<and>
     reg_inv (close e s))"
proof (intro conjI impI allI)
  show "reg_inv (init e key cb)"
    by (simp add: init_def db_init_def reg_inv_def)
next
  fix markets r s'
  assume "reg_inv s"
  note sub = u_subscribe_spec [of n e, unfolded sub_spec_def, rule_format]
  { assume "subscribe_ticker n e markets s = Some (r, s')"
    with \<open>reg_inv s\<close> sub show "reg_inv s'" by (simp add: subscribe_ticker_def) }
  { assume "subscribe_orderbook n e markets s = Some (r, s')"
    with \<open>reg_inv s\<close> sub show "reg_inv s'" by (simp add: subscribe_orderbook_def) }
  { assume "subscribe_trade n e markets s = Some (r, s')"
    with \<open>reg_inv s\<close> sub show "reg_inv s'" by (simp add: subscribe_trade_def) }
next
  fix r s'
  assume inv: "reg_inv s"
  { assume "resubscribe_all n e s = Some (r, s')"
    with resubscribe_all_spec [of n e] inv have "reg_same s s'"
      by (simp add: conn_spec_def)
    then show "reg_inv s'" using inv by (rule reg_same_inv) }
  { assume "connect n e s = Some (r, s')"
    with connect_spec [of n e] inv have "reg_same s s'"
      by (simp add: conn_spec_def)
    then show "reg_inv s'" using inv by (rule reg_same_inv) }
next
  assume inv: "reg_inv s"
  have "reg_same s (close e s)"
    by (simp add: close_def reg_same_def split: option.split)
  then show "reg_inv (close e s)" using inv by (rule reg_same_inv)
next
  fix market type_name r s'
  assume inv: "reg_inv s" and run: "unsubscribe n e market type_name s = Some (r, s')"
  show "reg_inv s'"
  proof (cases "market \<in> subscribed_markets s")
    case False
    with run inv show ?thesis by (simp add: unsubscribe_def)
  next
    case True
    define s0 where "s0 = close e (unregister market type_name s)"
    have "reg_same (unregister market type_name s) s0"
      by (simp add: s0_def close_def reg_same_def split: option.split)
    then have inv0: "reg_inv s0"
      using unregister_inv [OF inv] by (rule reg_same_inv)
    from run True have run': "(case connect n e s0 of
          None \<Rightarrow> None
        | Some (Inl x, s1) \<Rightarrow>
            Some (False, s1\<lparr>error_log := error_log s1 @ [LogUnsubscribeError]\<rparr>)
        | Some (Inr u, s1) \<Rightarrow>
            (case resubscribe_all n e s1 of
               None \<Rightarrow> None
             | Some (Inl x, s2) \<Rightarrow>
                 Some (False, s2\<lparr>error_log := error_log s2 @ [LogUnsubscribeError]\<rparr>)
             | Some (Inr v, s2) \<Rightarrow> Some (True, s2))) = Some (r, s')"
      by (simp add: unsubscribe_def s0_def)
    show ?thesis
    proof (cases "connect n e s0")
      case None
      with run' show ?thesis by simp
    next
      case (Some p)
      obtain r1 s1 where p: "p = (r1, s1)" by (cases p)
      with connect_spec [of n e] inv0 Some have "reg_same s0 s1"
        by (simp add: conn_spec_def)
      then have inv1: "reg_inv s1" using inv0 by (rule reg_same_inv)
      show ?thesis
      proof (cases r1)
        case (Inl x)
        with run' Some p
        have "s' = s1\<lparr>error_log := error_log s1 @ [LogUnsubscribeError]\<rparr>" by simp
        with inv1 show ?thesis by (simp add: reg_inv_def)
      next
        case (Inr u)
        show ?thesis
        proof (cases "resubscribe_all n e s1")
          case None
          with run' \<open>connect n e s0 = Some p\<close> p Inr show ?thesis by simp
        next
          case (Some q)
          obtain r2 s2 where q: "q = (r2, s2)" by (cases q)
          with resubscribe_all_spec [of n e] inv1 Some have "reg_same s1 s2"
            by (simp add: conn_spec_def)
          then have inv2: "reg_inv s2" using inv1 by (rule reg_same_inv)
          show ?thesis
          proof (cases r2)
            case (Inl x)
            with run' \<open>connect n e s0 = Some p\<close> p Inr Some q
            have "s' = s2\<lparr>error_log := error_log s2 @ [LogUnsubscribeError]\<rparr>" by simp
            with inv2 show ?thesis by (simp add: reg_inv_def)
          next
            case (Inr v)
            with run' \<open>connect n e s0 = Some p\<close> p \<open>r1 = Inr u\<close> Some q
            have "s' = s2" by simp
            with inv2 show ?thesis by simp
          qed
        qed
      qed
    qed
  qed
qed

text \<open>
  The invariant at work: the first subscription of the constructed client returns, and the
  registry it leaves is consistent.
\<close>

theorem registry_invariant_witness:
  "reg_inv client0 \<and>
   (\<exists>s'. subscribe_ticker 1 env0 [''KRW-BTC''] client0 = Some (Inr True, s') \<and> reg_inv s')"
proof -
  have a: "reg_inv client0"
    using registry_invariant [of env0 "''key''" True] by (simp add: client0_def)
  obtain s' where run: "subscribe_ticker 1 env0 [''KRW-BTC''] client0 = Some (Inr True, s')"
    using subscribe_ticker_client0 by blast
  from registry_invariant [of env0 "''key''" True client0 1] a run have "reg_inv s'"
    by blast
  with a run show ?thesis by blast
qed

subsection \<open>The processor\<close>

lemma processor_iteration_callback:
  "has_callback (processor_iteration e s) = has_callback s"
  by (simp add: processor_iteration_def split: list.split option.split)

lemma processor_iteration_received:
  "received (processor_iteration e s) = received s"
  by (simp add: processor_iteration_def split: list.split option.split)

lemma processor_iteration_queue:
  "message_queue (processor_iteration e s) = tl (message_queue s)"
  by (simp add: processor_iteration_def split: list.split option.split)

lemma processor_iteration_calls:
  "has_callback s \<Longrightarrow>
   callback_calls (processor_iteration e s) = callback_calls s @ take 1 (message_queue s)"
  by (simp add: processor_iteration_def split: list.split option.split)

lemma u_message_processor_effect:
  "has_callback s \<Longrightarrow>
   has_callback (u_message_processor k e s) \<and>
   received (u_message_processor k e s) = received s \<and>
   message_queue (u_message_processor k e s) = drop k (message_queue s) \<and>
   callback_calls (u_message_processor k e s) = callback_calls s @ take k (message_queue s)"
proof (induction k arbitrary: s)
  case 0
  then show ?case by simp
next
  case (Suc k)
  let ?s1 = "processor_iteration e s"
  have c: "has_callback ?s1"
    using Suc.prems by (simp add: processor_iteration_callback)
  show ?case
  proof (cases "message_queue s")
    case Nil
    with Suc.IH [OF c] Suc.prems show ?thesis
      by (simp add: processor_iteration_received processor_iteration_queue
          processor_iteration_calls)
  next
    case (Cons m rest)
    with Suc.IH [OF c] Suc.prems show ?thesis
      by (simp add: processor_iteration_received processor_iteration_queue
          processor_iteration_calls)
  qed
qed

text \<open>
  Claim C8.  When the callback raises on the dequeued message, the processor pass ends
  normally: the message has left the queue, the call is recorded, the exception is logged
  and nothing else changes, so the loop goes on.  Whatever the callback raises on whichever
  message, as many passes as there are queued messages hand every one of them to the
  callback, in queue order, and leave the queue empty.
\<close>

theorem callback_exception_isolated:
  assumes "has_callback s" and "message_queue s = message # rest"
    and "callback e message (tick s) = Some x"
  shows "processor_iteration e s =
           s\<lparr>message_queue := rest, callback_calls := callback_calls s @ [message],
             tick := Suc (tick s), error_log := error_log s @ [LogCallbackError]\<rparr> \<and>
         callback_calls (u_message_processor (length (message # rest)) e s) =
           callback_calls s @ message # rest \<and>
         message_queue (u_message_processor (length (message # rest)) e s) = []"
proof -
  have "processor_iteration e s =
           s\<lparr>message_queue := rest, callback_calls := callback_calls s @ [message],
             tick := Suc (tick s), error_log := error_log s @ [LogCallbackError]\<rparr>"
    using assms by (simp add: processor_iteration_def)
  moreover from u_message_processor_effect [OF assms(1), of "length (message # rest)" e]
  have "callback_calls (u_message_processor (length (message # rest)) e s) =
           callback_calls s @ message # rest \<and>
         message_queue (u_message_processor (length (message # rest)) e s) = []"
    using assms(2) by simp
  ultimately show ?thesis by simp
qed

theorem callback_exception_isolated_witness:
  "error_log (processor_iteration env_raising client_queued) = [LogCallbackError] \<and>
   callback_calls (u_message_processor 2 env_raising client_queued) = [''[1]'', ''[2]''] \<and>
   message_queue (u_message_processor 2 env_raising client_queued) = []"
proof -
  have h: "has_callback client_queued" "message_queue client_queued = ''[1]'' # [''[2]'']"
    "callback env_raising ''[1]'' (tick client_queued) = Some OtherException"
    by (simp_all add: client_queued_def client0_eq env_raising_def)
  have c: "callback_calls client_queued = []" "error_log client_queued = []"
    by (simp_all add: client_queued_def client0_eq)
  note t = callback_exception_isolated [OF h]
  have l: "length (''[1]'' # [''[2]'']) = 2" by simp
  from t [THEN conjunct1] c
  have "error_log (processor_iteration env_raising client_queued) = [LogCallbackError]"
    by simp
  with t [THEN conjunct2, unfolded l] c show ?thesis
    by simp
qed

subsection \<open>The pipeline\<close>

lemma client1_run: "subscribe_ticker 1 env0 [''KRW-BTC''] client0 = Some (Inr True, client1)"
  using subscribe_ticker_client0 by (simp add: client1_def client0_eq)

lemma client1_eq:
  "client1 = \<lparr>access_key = ''key'', secret_key = None, db_connection = True,
      db_cursor = True, websocket = Some 3, is_connected = True,
      has_callback = True, subscribed_markets = {''KRW-BTC''},
      subscribed_types = [(''KRW-BTC'', [''ticker''])],
      auth_token = Some ''token'', auth_expires_at = Some 100,
      message_queue = [], tick = 11,
      send_log =
        [(SubscriptionFrame
           [Ticket ''uuid'', Request ''ticker'' [''KRW-BTC''] True,
            Format ''SIMPLE''],
          True)],
      db_writes = [], received = [], callback_calls = [], error_log = []\<rparr>"
  by (simp add: client1_def client0_eq)























subsection \<open>The subscription frame\<close>

lemma subscribe_message_Inr:
  assumes "subscribe_message e t ms s = (Inr msg, s2)"
  shows "msg = [Ticket (uuid4 e (tick s)), Request t ms True] @
               (if t \<in> set [''ticker'', ''orderbook'', ''trade'']
                then [Format ''SIMPLE''] else [])"
    and "tick s < tick s2"
proof -
  show "msg = [Ticket (uuid4 e (tick s)), Request t ms True] @
               (if t \<in> set [''ticker'', ''orderbook'', ''trade'']
                then [Format ''SIMPLE''] else [])"
    using assms
    by (cases "u_ensure_auth e (tock s)"; cases "fst (u_ensure_auth e (tock s))")
       (auto simp: subscribe_message_def Let_def split: if_splits)
  have "auth_frame (tock s) (snd (u_ensure_auth e (tock s)))"
    by (rule u_ensure_auth_frame)
  then have "tick s < tick (snd (u_ensure_auth e (tock s)))"
    by (simp add: frame_defs tock_def)
  moreover have "tick s < tick (tock s)"
    by (simp add: tock_def)
  ultimately show "tick s < tick s2"
    using assms
    by (cases "u_ensure_auth e (tock s)"; cases "fst (u_ensure_auth e (tock s))")
       (auto simp: subscribe_message_def Let_def split: if_splits)
qed

lemma subscribe_try_True_frame:
  assumes "subscribe_try e t ms s = (True, s')"
  shows "tick s < tick s' \<and>
     (\<exists>pre. send_log s' = pre @
        [(SubscriptionFrame
            ([Ticket (uuid4 e (tick s)), Request t ms True] @
             (if t \<in> set [''ticker'', ''orderbook'', ''trade'']
              then [Format ''SIMPLE''] else [])), True)])"
proof (cases rule: subscribe_try_cases [of e t ms s])
  case (sent msg s1 w)
  from assms sent(4) have s': "s' = register_markets t ms
            (s1\<lparr>tick := Suc (tick s1),
                send_log := send_log s1 @ [(SubscriptionFrame msg, True)]\<rparr>)"
    by simp
  from subscribe_message_Inr [OF sent(1)] show ?thesis
    unfolding s' by (simp add: register_markets_other)
qed (use assms in simp_all)

text \<open>
  Claim C1, as the code has it.  When \<^verbatim>\<open>_subscribe(type_name, markets)\<close> returns success,
  the last frame it sent holds a ticket drawn from \<^verbatim>\<open>uuid4\<close> during this call, the
  channel type, exactly the list \<open>markets\<close> that was passed, and \<^verbatim>\<open>isOnlyRealtime\<close> true
  (followed by the format element for the three channel types).
\<close>

theorem subscribe_frame_contents:
  assumes "u_subscribe n e type_name markets s = Some (Inr True, s')"
  shows "\<exists>k pre. tick s \<le> k \<and> k < tick s' \<and>
           send_log s' = pre @
             [(SubscriptionFrame
                 ([Ticket (uuid4 e k), Request type_name markets True] @
                  (if type_name \<in> set [''ticker'', ''orderbook'', ''trade'']
                   then [Format ''SIMPLE''] else [])), True)]"
proof -
  have "\<exists>s1. tick s \<le> tick s1 \<and> subscribe_try e type_name markets s1 = (True, s')"
  proof (cases "\<not> is_connected s \<or> websocket s = None")
    case False
    with assms have "subscribe_try e type_name markets s = (True, s')"
      by (cases "subscribe_try e type_name markets s")
         (auto simp: u_subscribe_def u_subscribe_with_def)
    then show ?thesis by auto
  next
    case True
    show ?thesis
    proof (cases "connect n e s")
      case None
      with assms True show ?thesis
        by (simp add: u_subscribe_def u_subscribe_with_def)
    next
      case (Some p)
      obtain r1 s1 where p: "p = (r1, s1)" by (cases p)
      with connect_spec [of n e] Some have "tick s \<le> tick s1"
        by (simp add: conn_spec_def pipe_same_def)
      moreover from assms True Some p
      have "subscribe_try e type_name markets s1 = (True, s')"
        by (cases r1; cases "subscribe_try e type_name markets s1")
           (simp_all add: u_subscribe_def u_subscribe_with_def)
      ultimately show ?thesis by auto
    qed
  qed
  then obtain s1 where a: "tick s \<le> tick s1"
    and b: "subscribe_try e type_name markets s1 = (True, s')"
    by blast
  from subscribe_try_True_frame [OF b] a show ?thesis
    by (intro exI [of _ "tick s1"]) simp
qed

lemma client2_run:
  "subscribe_ticker 0 env0 [''KRW-ETH''] client1 = Some (Inr True, client2)"
  unfolding client2_def client1_eq ticker_frame_def
  by (simp add: run_defs env0_def insert_commute)

theorem subscribe_frame_contents_witness:
  "\<exists>k pre. tick client1 \<le> k \<and> k < tick client2 \<and>
     send_log client2 = pre @
       [(SubscriptionFrame [Ticket (uuid4 env0 k), Request ''ticker'' [''KRW-ETH''] True,
           Format ''SIMPLE''], True)]"
  using subscribe_frame_contents [OF client2_run [unfolded subscribe_ticker_def]]
  by simp

text \<open>
  Claim C1 as stated fails: with \<open>KRW-BTC\<close> already registered for the ticker channel,
  subscribing \<open>KRW-ETH\<close> sends a frame whose codes are \<open>KRW-ETH\<close> alone, while the
  markets registered for the channel after the call are \<open>KRW-BTC\<close> and \<open>KRW-ETH\<close>.
\<close>

theorem subscribe_frame_not_full_set:
  "subscribe_ticker 0 env0 [''KRW-ETH''] client1 = Some (Inr True, client2) \<and>
   last (send_log client2) =
     (SubscriptionFrame [Ticket ''uuid'', Request ''ticker'' [''KRW-ETH''] True,
        Format ''SIMPLE''], True) \<and>
   markets_for ''ticker'' (subscribed_types client2) = [''KRW-BTC'', ''KRW-ETH'']"
  using client2_run
  by (simp add: client2_def ticker_frame_def markets_for_def)

text \<open>
  Claim C2 fails on the code: the first subscription of the constructed client to the
  public ticker channel sends a frame that ends with the format element, and the token
  fetched for it is in no element of the frame.
\<close>

theorem format_element_on_public_channel:
  "subscribe_ticker 1 env0 [''KRW-BTC''] client0 = Some (Inr True, client1) \<and>
   map fst (send_log client1) =
     [SubscriptionFrame [Ticket ''uuid'', Request ''ticker'' [''KRW-BTC''] True,
        Format ''SIMPLE'']] \<and>
   auth_token client1 = Some ''token''"
  using client1_run by (simp add: client1_eq)

subsection \<open>A failed send\<close>

text \<open>
  Claim C6.  The registry being consistent, let the connection check of
  \<^verbatim>\<open>_subscribe\<close> pass (the client is connected, or \<^verbatim>\<open>connect\<close> returns), let the
  message be built, and let the send of the frame fail.  Then \<^verbatim>\<open>_subscribe\<close> returns
  \<open>False\<close> right after this one attempt (nothing else is sent and the environment is not
  asked again), the client is disconnected, and the registry is what it was before the call.
\<close>

theorem send_failure_keeps_registry:
  assumes "reg_inv s"
    and "if \<not> is_connected s \<or> websocket s = None
         then connect n e s = Some (Inr (), s1) else s1 = s"
    and "subscribe_message e type_name markets s1 = (Inr message, s2)"
    and "websocket s2 = Some w" and "ws_send e (tick s2) = Some x"
  shows "\<exists>s'. u_subscribe n e type_name markets s = Some (Inr False, s') \<and>
           send_log s' = send_log s2 @ [(SubscriptionFrame message, False)] \<and>
           tick s' = Suc (tick s2) \<and>
           \<not> is_connected s' \<and> websocket s' = None \<and>
           subscribed_markets s' = subscribed_markets s \<and>
           subscribed_types s' = subscribed_types s"
proof -
  define s' where "s' = subscribe_failed type_name
      (s2\<lparr>tick := Suc (tick s2),
          send_log := send_log s2 @ [(SubscriptionFrame message, False)]\<rparr>)"
  have tr: "subscribe_try e type_name markets s1 = (False, s')"
    using assms(3-5) by (simp add: subscribe_try_def s'_def)
  have run: "u_subscribe n e type_name markets s = Some (Inr False, s')"
  proof (cases "\<not> is_connected s \<or> websocket s = None")
    case True
    with assms(2) have "connect n e s = Some (Inr (), s1)" by simp
    with True tr show ?thesis
      by (simp add: u_subscribe_def u_subscribe_with_def)
  next
    case False
    with assms(2) have "s1 = s" by simp
    with False tr show ?thesis
      by (auto simp: u_subscribe_def u_subscribe_with_def)
  qed
  have "reg_same s s1"
  proof (cases "\<not> is_connected s \<or> websocket s = None")
    case True
    with assms(2) have "connect n e s = Some (Inr (), s1)" by simp
    with connect_spec [of n e] assms(1) show ?thesis
      by (simp add: conn_spec_def)
  next
    case False
    with assms(2) show ?thesis by (simp add: reg_same_def)
  qed
  moreover from subscribe_try_False [OF tr] have "reg_same s1 s'" by simp
  ultimately have "reg_same s s'" by (rule reg_same_trans)
  with run show ?thesis
    by (intro exI [of _ s']) (simp add: reg_same_def, simp add: s'_def subscribe_failed_def)
qed

theorem send_failure_keeps_registry_witness:
  "\<exists>s'. u_subscribe 0 env_send_fails ''ticker'' [''KRW-ETH''] client1 = Some (Inr False, s') \<and>
     send_log s' = send_log client1 @ [(ticker_frame ''KRW-ETH'', False)] \<and>
     \<not> is_connected s' \<and> websocket s' = None \<and>
     subscribed_markets s' = {''KRW-BTC''} \<and>
     subscribed_types s' = [(''KRW-BTC'', [''ticker''])]"
proof -
  have h: "reg_inv client1"
    "if \<not> is_connected client1 \<or> websocket client1 = None
     then connect 0 env_send_fails client1 = Some (Inr (), client1) else client1 = client1"
    "subscribe_message env_send_fails ''ticker'' [''KRW-ETH''] client1 =
       (Inr [Ticket ''uuid'', Request ''ticker'' [''KRW-ETH''] True, Format ''SIMPLE''],
        client1\<lparr>tick := 13\<rparr>)"
    "websocket (client1\<lparr>tick := 13\<rparr>) = Some 3"
    "ws_send env_send_fails (tick (client1\<lparr>tick := 13\<rparr>)) = Some ConnectionClosed"
    unfolding client1_eq
    by (simp_all add: reg_inv_def run_defs env_send_fails_def env0_def)
  from send_failure_keeps_registry [OF h] obtain s' where
    "u_subscribe 0 env_send_fails ''ticker'' [''KRW-ETH''] client1 = Some (Inr False, s')"
    "send_log s' = send_log (client1\<lparr>tick := 13\<rparr>) @
       [(SubscriptionFrame [Ticket ''uuid'', Request ''ticker'' [''KRW-ETH''] True,
           Format ''SIMPLE''], False)]"
    "\<not> is_connected s'" "websocket s' = None"
    "subscribed_markets s' = subscribed_markets client1"
    "subscribed_types s' = subscribed_types client1"
    by blast
  then show ?thesis
    by (intro exI [of _ s']) (simp add: client1_eq ticker_frame_def)
qed

subsection \<open>Replaying the registry\<close>

lemma sent_requests_append:
  "sent_requests (a @ b) = sent_requests a @ sent_requests b"
  by (simp add: sent_requests_def)

lemma u_ensure_auth_ready:
  assumes "ready e s"
  shows "\<exists>token. u_ensure_auth e s = (Inr token, tock s)"
proof -
  from assms obtain token expires_at where
    "auth_token s = Some token" "token \<noteq> []" "auth_expires_at s = Some expires_at"
    "now e (tick s) < expires_at"
    unfolding ready_def by blast
  then have "cached_token (now e (tick s)) s = Some token"
    by (simp add: cached_token_def)
  then show ?thesis
    by (simp add: u_ensure_auth_def)
qed

lemma ready_tick: "ready e s \<Longrightarrow> ready e (s\<lparr>tick := k\<rparr>)"
  by (simp add: ready_def)

lemma subscribe_message_ready:
  assumes "ready e s"
  shows "\<exists>rest k. subscribe_message e t ms s =
           (Inr (Ticket (uuid4 e (tick s)) # Request t ms True # rest), s\<lparr>tick := k\<rparr>)"
proof (cases "t \<in> set [''ticker'', ''orderbook'', ''trade'']")
  case False
  then have "subscribe_message e t ms s =
      (Inr (Ticket (uuid4 e (tick s)) # Request t ms True # []), s\<lparr>tick := Suc (tick s)\<rparr>)"
    by (simp add: subscribe_message_def tock_def)
  then show ?thesis by blast
next
  case True
  have "ready e (tock s)"
    using assms by (simp add: tock_def ready_tick)
  from u_ensure_auth_ready [OF this] obtain token where
    "u_ensure_auth e (tock s) = (Inr token, tock (tock s))" by blast
  with True have "subscribe_message e t ms s =
      (Inr (Ticket (uuid4 e (tick s)) # Request t ms True # [Format ''SIMPLE'']),
       s\<lparr>tick := Suc (Suc (tick s))\<rparr>)"
    by (simp add: subscribe_message_def tock_def)
  then show ?thesis by blast
qed

lemma u_subscribe_ready:
  assumes "ready e s" and "\<forall>k. ws_send e k = None" and "reg_inv s"
    and "set ms \<subseteq> set (markets_for t (subscribed_types s))"
  shows "\<exists>s'. u_subscribe n e t ms s = Some (Inr True, s') \<and> ready e s' \<and> reg_same s s' \<and>
           sent_requests (send_log s') = sent_requests (send_log s) @ [(t, ms)] \<and>
           length (send_log s') = Suc (length (send_log s))"
proof -
  from subscribe_message_ready [OF assms(1)] obtain rest k where
    m: "subscribe_message e t ms s =
           (Inr (Ticket (uuid4 e (tick s)) # Request t ms True # rest), s\<lparr>tick := k\<rparr>)"
    by blast
  from assms(1) obtain w where c: "is_connected s" "websocket s = Some w"
    by (auto simp: ready_def)
  define s2 where "s2 = s\<lparr>tick := Suc k,
     send_log := send_log s @
       [(SubscriptionFrame (Ticket (uuid4 e (tick s)) # Request t ms True # rest), True)]\<rparr>"
  define s' where "s' = register_markets t ms s2"
  have tr: "subscribe_try e t ms s = (True, s')"
    using m c assms(2) by (simp add: subscribe_try_def s'_def s2_def)
  have run: "u_subscribe n e t ms s = Some (Inr True, s')"
    using c tr by (simp add: u_subscribe_def u_subscribe_with_def)
  have r2: "ready e s2"
    using assms(1) by (simp add: ready_def s2_def)
  have "ready e s'"
    using r2 unfolding s'_def ready_def by (simp add: register_markets_other)
  moreover have "reg_same s s'"
    using subscribe_try_reg(2) [OF assms(3) tr assms(4)] .
  moreover have "send_log s' = send_log s @
       [(SubscriptionFrame (Ticket (uuid4 e (tick s)) # Request t ms True # rest), True)]"
    by (simp add: s'_def register_markets_other s2_def)
  ultimately show ?thesis
    using run by (simp add: sent_requests_append) (simp add: sent_requests_def)
qed

lemma resubscribe_loop_ready:
  assumes "\<forall>k. ws_send e k = None"
  shows "ready e s \<Longrightarrow> reg_inv s \<Longrightarrow>
     \<exists>s'. resubscribe_loop (u_subscribe n e) ts s = Some (Inr (), s') \<and>
        ready e s' \<and> reg_same s s' \<and>
        sent_requests (send_log s') = sent_requests (send_log s) @
          map (\<lambda>t. (t, markets_for t (subscribed_types s)))
            (filter (\<lambda>t. markets_for t (subscribed_types s) \<noteq> []) ts) \<and>
        length (send_log s') = length (send_log s) +
          length (filter (\<lambda>t. markets_for t (subscribed_types s) \<noteq> []) ts)"
proof (induction ts arbitrary: s)
  case Nil
  then show ?case by (simp add: reg_same_def)
next
  case (Cons t ts)
  let ?ms = "markets_for t (subscribed_types s)"
  show ?case
  proof (cases "?ms = []")
    case True
    with Cons.IH [OF Cons.prems] show ?thesis by simp
  next
    case False
    from u_subscribe_ready [OF Cons.prems(1) assms Cons.prems(2), of ?ms t n]
    obtain s1 where 1: "u_subscribe n e t ?ms s = Some (Inr True, s1)" "ready e s1"
      "reg_same s s1" "sent_requests (send_log s1) = sent_requests (send_log s) @ [(t, ?ms)]"
      "length (send_log s1) = Suc (length (send_log s))"
      by auto
    from 1(3) Cons.prems(2) have inv1: "reg_inv s1" by (rule reg_same_inv)
    from 1(3) have ty: "subscribed_types s1 = subscribed_types s"
      by (simp add: reg_same_def)
    from Cons.IH [OF 1(2) inv1] obtain s' where
      2: "resubscribe_loop (u_subscribe n e) ts s1 = Some (Inr (), s')" "ready e s'"
      "reg_same s1 s'"
      "sent_requests (send_log s') = sent_requests (send_log s1) @
          map (\<lambda>t. (t, markets_for t (subscribed_types s1)))
            (filter (\<lambda>t. markets_for t (subscribed_types s1) \<noteq> []) ts)"
      "length (send_log s') = length (send_log s1) +
          length (filter (\<lambda>t. markets_for t (subscribed_types s1) \<noteq> []) ts)"
      by blast
    have "resubscribe_loop (u_subscribe n e) (t # ts) s = Some (Inr (), s')"
      using False 1(1) 2(1) by simp
    moreover have "reg_same s s'"
      using 1(3) 2(3) by (rule reg_same_trans)
    ultimately show ?thesis
      using False 1(4,5) 2(2,4,5) ty by simp
  qed
qed

lemma markets_for_registered:
  assumes "reg_inv s"
  shows "distinct (markets_for t (subscribed_types s)) \<and>
         set (markets_for t (subscribed_types s)) =
           {m \<in> subscribed_markets s. t \<in> set (types_of (subscribed_types s) m)}"
proof -
  from assms have d: "distinct (map fst (subscribed_types s))"
    and k: "subscribed_markets s = fst ` set (subscribed_types s)"
    by (simp_all add: reg_inv_def)
  have "distinct (markets_for t (subscribed_types s))"
    unfolding markets_for_def using d by (rule distinct_map_filter)
  moreover have "m \<in> set (markets_for t (subscribed_types s)) \<longleftrightarrow>
      m \<in> subscribed_markets s \<and> t \<in> set (types_of (subscribed_types s) m)" for m
  proof
    assume "m \<in> set (markets_for t (subscribed_types s))"
    then obtain ts where ts: "(m, ts) \<in> set (subscribed_types s)" "t \<in> set ts"
      by (auto simp: markets_for_iff)
    with d have "map_of (subscribed_types s) m = Some ts" by simp
    with ts k show "m \<in> subscribed_markets s \<and> t \<in> set (types_of (subscribed_types s) m)"
      by (auto simp: types_of_def intro: rev_image_eqI)
  next
    assume a: "m \<in> subscribed_markets s \<and> t \<in> set (types_of (subscribed_types s) m)"
    then obtain ts where "map_of (subscribed_types s) m = Some ts" "t \<in> set ts"
      by (cases "map_of (subscribed_types s) m") (simp_all add: types_of_def)
    then show "m \<in> set (markets_for t (subscribed_types s))"
      by (auto simp: markets_for_iff dest: map_of_SomeD)
  qed
  ultimately show ?thesis by blast
qed

text \<open>
  Claim C3, as the code has it.  On a connected client with a consistent registry and an
  unexpired cached token, when every send succeeds, \<^verbatim>\<open>resubscribe_all\<close> returns and has
  sent exactly one frame for each of ticker, orderbook and trade that has a registered
  market, in this order, and nothing else; the registry is unchanged.  The codes of the
  frame of a type are the markets registered under the type: each once, and all of them.
\<close>

theorem resubscribe_all_one_frame_per_type:
  assumes "reg_inv s" and "is_connected s" and "websocket s = Some w"
    and "auth_token s = Some token" and "token \<noteq> []"
    and "auth_expires_at s = Some expires_at" and "\<forall>k. now e k < expires_at"
    and "\<forall>k. ws_send e k = None"
  shows "(\<exists>s'. resubscribe_all n e s = Some (Inr (), s') \<and>
            sent_requests (send_log s') = sent_requests (send_log s) @
              map (\<lambda>t. (t, markets_for t (subscribed_types s)))
                (filter (\<lambda>t. markets_for t (subscribed_types s) \<noteq> [])
                   [''ticker'', ''orderbook'', ''trade'']) \<and>
            length (send_log s') = length (send_log s) +
              length (filter (\<lambda>t. markets_for t (subscribed_types s) \<noteq> [])
                        [''ticker'', ''orderbook'', ''trade'']) \<and>
            subscribed_types s' = subscribed_types s \<and>
            subscribed_markets s' = subscribed_markets s) \<and>
         (\<forall>t. distinct (markets_for t (subscribed_types s)) \<and>
              set (markets_for t (subscribed_types s)) =
                {m \<in> subscribed_markets s. t \<in> set (types_of (subscribed_types s) m)})"
proof (intro conjI allI)
  fix t
  from markets_for_registered [OF assms(1), of t]
  show "distinct (markets_for t (subscribed_types s))"
    and "set (markets_for t (subscribed_types s)) =
           {m \<in> subscribed_markets s. t \<in> set (types_of (subscribed_types s) m)}"
    by simp_all
next
  let ?ts = "[''ticker'', ''orderbook'', ''trade'']"
  let ?sel = "filter (\<lambda>t. markets_for t (subscribed_types s) \<noteq> []) ?ts"
  have rdy: "ready e s"
    using assms(2-7) by (simp add: ready_def)
  from resubscribe_loop_ready [OF assms(8) rdy assms(1), of n ?ts]
  obtain s' where loop: "resubscribe_loop (u_subscribe n e) ?ts s = Some (Inr (), s')"
    and rs: "reg_same s s'"
    and sr: "sent_requests (send_log s') = sent_requests (send_log s) @
               map (\<lambda>t. (t, markets_for t (subscribed_types s))) ?sel"
    and ln: "length (send_log s') = length (send_log s) + length ?sel"
    by blast
  show "\<exists>s'. resubscribe_all n e s = Some (Inr (), s') \<and>
            sent_requests (send_log s') = sent_requests (send_log s) @
              map (\<lambda>t. (t, markets_for t (subscribed_types s))) ?sel \<and>
            length (send_log s') = length (send_log s) + length ?sel \<and>
            subscribed_types s' = subscribed_types s \<and>
            subscribed_markets s' = subscribed_markets s"
  proof (cases "subscribed_types s = []")
    case True
    then have "resubscribe_all n e s = Some (Inr (), s)"
      by (simp add: resubscribe_all_def resubscribe_all_with_def)
    moreover from True have "?sel = []"
      by (simp add: markets_for_def)
    ultimately show ?thesis by simp
  next
    case False
    with loop have "resubscribe_all n e s = Some (Inr (), s')"
      by (simp add: resubscribe_all_def resubscribe_all_with_def del: resubscribe_loop.simps)
    with rs sr ln show ?thesis
      by (intro exI [of _ s']) (simp add: reg_same_def)
  qed
qed

lemma client2_eq:
  "client2 = \<lparr>access_key = ''key'', secret_key = None, db_connection = True,
      db_cursor = True, websocket = Some 3, is_connected = True,
      has_callback = True, subscribed_markets = {''KRW-ETH'', ''KRW-BTC''},
      subscribed_types = [(''KRW-BTC'', [''ticker'']), (''KRW-ETH'', [''ticker''])],
      auth_token = Some ''token'', auth_expires_at = Some 100,
      message_queue = [], tick = 14,
      send_log = [(ticker_frame ''KRW-BTC'', True), (ticker_frame ''KRW-ETH'', True)],
      db_writes = [], received = [], callback_calls = [], error_log = []\<rparr>"
  by (simp add: client2_def client1_eq)

theorem resubscribe_all_one_frame_per_type_witness:
  "\<exists>s'. resubscribe_all 0 env0 client2 = Some (Inr (), s') \<and>
     sent_requests (send_log s') =
       [(''ticker'', [''KRW-BTC'']), (''ticker'', [''KRW-ETH'']),
        (''ticker'', [''KRW-BTC'', ''KRW-ETH''])] \<and>
     length (send_log s') = 3"
proof -
  have h: "reg_inv client2" "is_connected client2" "websocket client2 = Some 3"
    "auth_token client2 = Some ''token''" "''token'' \<noteq> []"
    "auth_expires_at client2 = Some 100" "\<forall>k. now env0 k < 100"
    "\<forall>k. ws_send env0 k = None"
    by (simp_all add: client2_eq reg_inv_def env0_def insert_commute)
  have m: "markets_for ''ticker'' (subscribed_types client2) = [''KRW-BTC'', ''KRW-ETH'']"
    "markets_for ''orderbook'' (subscribed_types client2) = []"
    "markets_for ''trade'' (subscribed_types client2) = []"
    "sent_requests (send_log client2) = [(''ticker'', [''KRW-BTC'']), (''ticker'', [''KRW-ETH''])]"
    "length (send_log client2) = 2"
    by (simp_all add: client2_eq markets_for_def sent_requests_def ticker_frame_def)
  from resubscribe_all_one_frame_per_type [OF h, of 0, THEN conjunct1] obtain s' where
    "resubscribe_all 0 env0 client2 = Some (Inr (), s')"
    "sent_requests (send_log s') = sent_requests (send_log client2) @
              map (\<lambda>t. (t, markets_for t (subscribed_types client2)))
                (filter (\<lambda>t. markets_for t (subscribed_types client2) \<noteq> [])
                   [''ticker'', ''orderbook'', ''trade''])"
    "length (send_log s') = length (send_log client2) +
              length (filter (\<lambda>t. markets_for t (subscribed_types client2) \<noteq> [])
                        [''ticker'', ''orderbook'', ''trade''])"
    by blast
  then show ?thesis
    by (intro exI [of _ s']) (simp add: m)
qed

lemma client_failed_eq:
  "client_failed = \<lparr>access_key = ''key'', secret_key = None, db_connection = True,
      db_cursor = True, websocket = None, is_connected = False,
      has_callback = True, subscribed_markets = {''KRW-BTC''},
      subscribed_types = [(''KRW-BTC'', [''ticker''])],
      auth_token = Some ''token'', auth_expires_at = Some 100,
      message_queue = [], tick = 14,
      send_log = [(ticker_frame ''KRW-BTC'', True), (ticker_frame ''KRW-ETH'', False)],
      db_writes = [], received = [], callback_calls = [],
      error_log = [LogSubscribeError ''ticker'']\<rparr>"
  by (simp add: client_failed_def client1_eq)

lemma client_failed_run:
  "subscribe_ticker 1 env_one_failure [''KRW-ETH''] client1 = Some (Inr False, client_failed)"
  unfolding client_failed_eq client1_eq ticker_frame_def
  by (simp add: run_defs env_one_failure_def env0_def)

lemma client_replayed_run:
  "resubscribe_all 1 env_one_failure client_failed = Some (Inr (), client_replayed)"
  unfolding client_replayed_def client_failed_eq ticker_frame_def
  by (simp add: run_defs env_one_failure_def env0_def)

text \<open>
  Claim C3 as stated fails.  The client subscribes \<open>KRW-BTC\<close>; a second subscription fails
  at its send and leaves the client disconnected with \<open>KRW-BTC\<close> registered; from then on
  everything works.  \<^verbatim>\<open>resubscribe_all\<close> now sends the ticker frame twice: its first
  \<^verbatim>\<open>_subscribe\<close> reconnects, \<^verbatim>\<open>connect\<close> replays the registry, and then the frame of
  the call itself follows.
\<close>

theorem resubscribe_all_sends_twice:
  "subscribe_ticker 1 env_one_failure [''KRW-BTC''] client0 = Some (Inr True, client1) \<and>
   subscribe_ticker 1 env_one_failure [''KRW-ETH''] client1 = Some (Inr False, client_failed) \<and>
   resubscribe_all 1 env_one_failure client_failed = Some (Inr (), client_replayed) \<and>
   markets_for ''ticker'' (subscribed_types client_failed) = [''KRW-BTC''] \<and>
   drop (length (send_log client_failed)) (send_log client_replayed) =
     [(ticker_frame ''KRW-BTC'', True), (ticker_frame ''KRW-BTC'', True)]"
proof -
  have "subscribe_ticker 1 env_one_failure [''KRW-BTC''] client0 = Some (Inr True, client1)"
    unfolding client1_eq client0_eq
    by (simp add: run_defs env_one_failure_def env0_def)
  moreover have "markets_for ''ticker'' (subscribed_types client_failed) = [''KRW-BTC'']"
    by (simp add: client_failed_eq markets_for_def)
  moreover have "drop (length (send_log client_failed)) (send_log client_replayed) =
     [(ticker_frame ''KRW-BTC'', True), (ticker_frame ''KRW-BTC'', True)]"
    by (simp add: client_replayed_def client_failed_eq)
  ultimately show ?thesis
    using client_failed_run client_replayed_run by simp
qed

subsection \<open>Minting and persisting the token\<close>

lemma client_keyed_eq:
  "client_keyed = \<lparr>access_key = ''key'', secret_key = Some ''secret'', db_connection = True,
    db_cursor = True, websocket = None, is_connected = False,
    has_callback = True, subscribed_markets = {}, subscribed_types = [],
    auth_token = None, auth_expires_at = None, message_queue = [], tick = 3,
    send_log = [], db_writes = [], received = [], callback_calls = [],
    error_log = []\<rparr>"
  by (simp add: client_keyed_def client0_eq)

text \<open>
  Claim C9 fails on the code.  The signing key is set and the token table is empty.  The
  database answers \<^verbatim>\<open>get_auth\<close> and is gone when \<^verbatim>\<open>save_auth\<close> checks its
  connection; the reconnect fails and leaves no cursor.  \<^verbatim>\<open>_ensure_auth\<close> then raises
  \<^verbatim>\<open>AttributeError\<close> although the minted token is cached; nothing was written.
\<close>

theorem persistence_failure_escapes:
  "fst (u_ensure_auth env_db_drops client_keyed) = Inl AttributeError \<and>
   auth_token (snd (u_ensure_auth env_db_drops client_keyed)) = Some ''keyuuidsecret'' \<and>
   db_writes (snd (u_ensure_auth env_db_drops client_keyed)) = []"
  unfolding client_keyed_eq
  by (simp add: run_defs env_db_drops_def env0_def)

text \<open>
  Property X1.  What the code does keep: with the signing key set, a database manager that has its
  connection and cursor, and a server that stays connected, \<^verbatim>\<open>mint_token\<close> returns the
  minted token and has cached it with its expiry, whether the statements and the commit
  of \<^verbatim>\<open>save_auth\<close> succeed or report errors.
\<close>

theorem mint_survives_database_error:
  assumes "secret_key s = Some key" and "db_connection s" and "db_cursor s"
    and "\<forall>k. mysql_is_connected e k"
  shows "\<exists>s'. mint_token e s =
             (Inr (jwt_encode e (access_key s) (uuid4 e (tick s)) key), s') \<and>
           auth_token s' = Some (jwt_encode e (access_key s) (uuid4 e (tick s)) key) \<and>
           auth_expires_at s' = Some (now e (Suc (tick s)) + TOKEN_REFRESH_INTERVAL)"
proof -
  define token where "token = jwt_encode e (access_key s) (uuid4 e (tick s)) key"
  define expires_at where "expires_at = now e (Suc (tick s)) + TOKEN_REFRESH_INTERVAL"
  define s2 where "s2 = s\<lparr>auth_token := Some token, auth_expires_at := Some expires_at,
                          tick := Suc (Suc (tick s))\<rparr>"
  have m: "mint_token e s =
     (case save_auth e ''websocket'' token expires_at s2 of
        (Inl x, s3) \<Rightarrow> (Inl x, s3) | (Inr saved, s3) \<Rightarrow> (Inr token, s3))"
    unfolding token_def expires_at_def s2_def using assms(1)
    by (simp add: mint_token_def u_create_jwt_token_def tock_def Let_def)
  have d: "db_ensure_connection e s2 = s2\<lparr>tick := Suc (tick s2)\<rparr>"
    using assms(2,4) by (simp add: db_ensure_connection_def s2_def tock_def)
  have "\<exists>saved s3. save_auth e ''websocket'' token expires_at s2 = (Inr saved, s3) \<and>
          auth_token s3 = Some token \<and> auth_expires_at s3 = Some expires_at"
    unfolding save_auth_def d Let_def using assms(2,3)
    by (auto simp: s2_def)
  with m show ?thesis
    unfolding token_def [symmetric] expires_at_def [symmetric] by auto
qed

theorem mint_survives_database_error_witness:
  "\<exists>s'. mint_token env_db_errors client_keyed = (Inr ''keyuuidsecret'', s') \<and>
     auth_token s' = Some ''keyuuidsecret'' \<and> auth_expires_at s' = Some 86400"
proof -
  have h: "secret_key client_keyed = Some ''secret''" "db_connection client_keyed"
    "db_cursor client_keyed" "\<forall>k. mysql_is_connected env_db_errors k"
    by (simp_all add: client_keyed_eq env_db_errors_def env0_def)
  from mint_survives_database_error [OF h] show ?thesis
    by (simp add: client_keyed_eq env_db_errors_def env0_def TOKEN_REFRESH_INTERVAL_def)
qed

lemma save_auth_writes:
  "length (db_writes (snd (save_auth e a t x s))) \<le> Suc (length (db_writes s))"
proof -
  define s1 where "s1 = db_ensure_connection e s"
  have "db_writes s1 = db_writes s"
    by (simp add: s1_def db_ensure_connection_def db_init_def tock_def)
  then show ?thesis
    unfolding save_auth_def s1_def [symmetric] Let_def by simp
qed

lemma get_auth_writes: "db_writes (snd (get_auth e a s)) = db_writes s"
proof -
  define s1 where "s1 = db_ensure_connection e s"
  have "db_writes s1 = db_writes s"
    by (simp add: s1_def db_ensure_connection_def db_init_def tock_def)
  then show ?thesis
    unfolding get_auth_def s1_def [symmetric] Let_def by simp
qed

lemma mint_token_cached:
  assumes "mint_token e s = (Inr token, s')"
  shows "auth_token s' = Some token \<and> auth_expires_at s' \<noteq> None \<and>
         length (db_writes s') \<le> Suc (length (db_writes s))"
proof (cases "secret_key s")
  case None
  with assms show ?thesis
    by (simp add: mint_token_def u_create_jwt_token_def Let_def)
next
  case (Some key)
  define tok where "tok = jwt_encode e (access_key s) (uuid4 e (tick s)) key"
  define x where "x = now e (Suc (tick s)) + TOKEN_REFRESH_INTERVAL"
  define s2 where "s2 = s\<lparr>auth_token := Some tok, auth_expires_at := Some x,
                          tick := Suc (Suc (tick s))\<rparr>"
  have m: "mint_token e s =
     (case save_auth e ''websocket'' tok x s2 of
        (Inl y, s3) \<Rightarrow> (Inl y, s3) | (Inr saved, s3) \<Rightarrow> (Inr tok, s3))"
    unfolding tok_def x_def s2_def using Some
    by (simp add: mint_token_def u_create_jwt_token_def tock_def Let_def)
  obtain r3 s3 where sv: "save_auth e ''websocket'' tok x s2 = (r3, s3)"
    by (cases "save_auth e ''websocket'' tok x s2")
  from m sv assms have eq: "token = tok" "s' = s3"
    by (cases r3; simp)+
  have k: "auth_token s3 = Some tok \<and> auth_expires_at s3 = Some x"
  proof -
    define s1 where "s1 = db_ensure_connection e s2"
    have "auth_token s1 = Some tok \<and> auth_expires_at s1 = Some x"
      by (simp add: s1_def db_ensure_connection_def db_init_def tock_def s2_def)
    moreover have "s3 = snd (save_auth e ''websocket'' tok x s2)"
      using sv by simp
    ultimately show ?thesis
      unfolding save_auth_def s1_def [symmetric] Let_def by simp
  qed
  from save_auth_writes [of e "''websocket''" tok x s2] sv
  have "length (db_writes s3) \<le> Suc (length (db_writes s))"
    by (simp add: s2_def)
  with k eq show ?thesis by simp
qed

text \<open>
  Property X2.  Two calls of \<^verbatim>\<open>_ensure_auth\<close>, one after the other.  The body of the coroutine has no
  \<^verbatim>\<open>await\<close>, so two calls on one event loop run in this way.  When the first call
  returns a token and the clock read by the second is before its expiry, the second
  call returns the same token from memory: it asks the database nothing and writes
  nothing.  The first call wrote at most one row.
\<close>

theorem second_call_reuses_token:
  assumes "u_ensure_auth e s = (Inr token, s1)" and "token \<noteq> []"
    and "\<forall>x. auth_expires_at s1 = Some x \<longrightarrow> now e (tick s1) < x"
  shows "u_ensure_auth e s1 = (Inr token, tock s1) \<and>
         db_writes (tock s1) = db_writes s1 \<and>
         length (db_writes s1) \<le> Suc (length (db_writes s))"
proof -
  have "auth_token s1 = Some token \<and> auth_expires_at s1 \<noteq> None \<and>
        length (db_writes s1) \<le> Suc (length (db_writes s))"
  proof (cases "cached_token (now e (tick s)) s")
    case (Some tok)
    with assms(1) have "tok = token" "s1 = tock s"
      by (simp_all add: u_ensure_auth_def)
    with Some show ?thesis
      by (auto simp: cached_token_def tock_def split: option.splits if_splits)
  next
    case None
    obtain g s0 where g: "get_auth e ''websocket'' (tock s) = (g, s0)"
      by (cases "get_auth e ''websocket'' (tock s)")
    from get_auth_writes [of e "''websocket''" "tock s"] g
    have w: "db_writes s0 = db_writes s"
      by (simp add: tock_def)
    have mt: "auth_token s1 = Some token \<and> auth_expires_at s1 \<noteq> None \<and>
        length (db_writes s1) \<le> Suc (length (db_writes s))"
      if "mint_token e s0' = (Inr token, s1)" "db_writes s0' = db_writes s0" for s0'
      using mint_token_cached [OF that(1)] that(2) w by simp
    show ?thesis
    proof (cases g)
      case (Inl y)
      with assms(1) None g show ?thesis
        by (simp add: u_ensure_auth_def)
    next
      case (Inr row)
      show ?thesis
      proof (cases row)
        case None
        with assms(1) \<open>cached_token (now e (tick s)) s = None\<close> g Inr
        have "mint_token e s0 = (Inr token, s1)"
          by (simp add: u_ensure_auth_def)
        then show ?thesis by (rule mt) simp
      next
        case (Some p)
        obtain c x where p: "p = (c, x)" by (cases p)
        show ?thesis
        proof (cases "c = []")
          case True
          with assms(1) \<open>cached_token (now e (tick s)) s = None\<close> g Inr Some p
          have "mint_token e s0 = (Inr token, s1)"
            by (simp add: u_ensure_auth_def)
          then show ?thesis by (rule mt) simp
        next
          case False
          show ?thesis
          proof (cases "now e (tick s0) < x")
            case True
            from \<open>cached_token (now e (tick s)) s = None\<close> g Inr Some p False True
            have eq: "u_ensure_auth e s =
               (Inr c, s0\<lparr>auth_token := Some c, auth_expires_at := Some x,
                  tick := Suc (tick s0)\<rparr>)"
              by (simp add: u_ensure_auth_def)
            from eq assms(1) have "token = c"
              "s1 = s0\<lparr>auth_token := Some c, auth_expires_at := Some x,
                       tick := Suc (tick s0)\<rparr>"
              by simp_all
            with w show ?thesis by simp
          next
            case nv: False
            with assms(1) \<open>cached_token (now e (tick s)) s = None\<close> g Inr Some p False
            have "mint_token e (tock s0) = (Inr token, s1)"
              by (simp add: u_ensure_auth_def)
            then show ?thesis by (rule mt) (simp add: tock_def)
          qed
        qed
      qed
    qed
  qed
  then obtain x where a: "auth_token s1 = Some token" "auth_expires_at s1 = Some x"
    and b: "length (db_writes s1) \<le> Suc (length (db_writes s))"
    by auto
  from a assms(2,3) have "cached_token (now e (tick s1)) s1 = Some token"
    by (simp add: cached_token_def)
  then have "u_ensure_auth e s1 = (Inr token, tock s1)"
    by (simp add: u_ensure_auth_def)
  with b show ?thesis
    by (simp add: tock_def)
qed

theorem second_call_reuses_token_witness:
  "\<exists>s1. u_ensure_auth env_empty_table client_keyed = (Inr ''keyuuidsecret'', s1) \<and>
     db_writes s1 = [(''websocket'', ''keyuuidsecret'', 86400)] \<and>
     u_ensure_auth env_empty_table s1 = (Inr ''keyuuidsecret'', tock s1) \<and>
     db_writes (tock s1) = db_writes s1"
proof -
  define s1 where "s1 = client_keyed\<lparr>auth_token := Some ''keyuuidsecret'',
     auth_expires_at := Some 86400, tick := 13,
     db_writes := [(''websocket'', ''keyuuidsecret'', 86400)]\<rparr>"
  have run: "u_ensure_auth env_empty_table client_keyed = (Inr ''keyuuidsecret'', s1)"
    unfolding s1_def client_keyed_eq
    by (simp add: run_defs env_empty_table_def env0_def)
  have h: "''keyuuidsecret'' \<noteq> []"
    "\<forall>x. auth_expires_at s1 = Some x \<longrightarrow> now env_empty_table (tick s1) < x"
    by (simp_all add: s1_def env_empty_table_def env0_def)
  from second_call_reuses_token [OF run h] run show ?thesis
    by (intro exI [of _ s1]) (simp add: s1_def)
qed

text \<open>
  Claim C5 fails on the code.  The body of \<^verbatim>\<open>_ensure_auth\<close> has no \<^verbatim>\<open>await\<close>, so
  two calls issued together on one event loop run one after the other, the second from
  the state the first has left.  No valid token exists: none is cached and the token
  table is empty.  The database is gone when \<^verbatim>\<open>save_auth\<close> checks its connection and
  cannot be reached again.  The first call raises \<^verbatim>\<open>AttributeError\<close> after it has
  cached the token it minted, and the second call returns that token from memory: the
  two callers do not receive the same value.  No row was written.
\<close>

theorem two_callers_one_token_fails:
  "auth_token client_keyed = None \<and>
   fst (u_ensure_auth env_db_drops client_keyed) = Inl AttributeError \<and>
   fst (u_ensure_auth env_db_drops (snd (u_ensure_auth env_db_drops client_keyed))) =
     Inr ''keyuuidsecret'' \<and>
   db_writes (snd (u_ensure_auth env_db_drops
                     (snd (u_ensure_auth env_db_drops client_keyed)))) = []"
  unfolding client_keyed_eq
  by (simp add: run_defs env_db_drops_def env0_def)

end
